theory Spec2Isabelle
  imports Complex_Main "HOL-Library.Sublist"
begin

section \<open>The scheduled release pipeline of the drama-shorts backend\<close>

text \<open>
  This theory embeds \<^verbatim>\<open>jobs/releaseComingSoonEpisodes.js\<close>: the two promoters
  \<^verbatim>\<open>releaseComingSoonSeries\<close> and \<^verbatim>\<open>releaseComingSoonEpisodes\<close> that move
  "coming soon" documents into the live catalogue.  The five Mongoose collections the job
  touches are lists of documents in natural order, every \<^verbatim>\<open>await\<close> on the store is a
  point where the store may reject with an error, and \<^verbatim>\<open>console\<close> output is kept as a
  list of lines, since several statements of the specification are about what is logged.
\<close>

subsection \<open>Documents\<close>

text \<open>
  The schemas of \<^verbatim>\<open>models/ComingSoonSeries.js\<close>, \<^verbatim>\<open>models/ComingSoonEpisode.js\<close>,
  \<^verbatim>\<open>models/Episode.js\<close> and \<^verbatim>\<open>models/SeriesTransferLog.js\<close>.  An \<^verbatim>\<open>ObjectId\<close> is a
  natural number, a \<^verbatim>\<open>Date\<close> is a number of milliseconds, an optional reference is an
  \<open>option\<close> (absent is falsy, present is truthy).  The \<^verbatim>\<open>createdAt\<close>/\<^verbatim>\<open>updatedAt\<close>
  stamps that Mongoose adds are left out: the job never reads them.
\<close>

datatype status = Pending | Released

record comingSoonSeries =
  cs_id :: nat
  cs_title :: string
  cs_description :: string
  cs_totalEpisode :: nat
  cs_freeEpisode :: nat
  cs_free :: bool
  cs_membersOnly :: bool
  cs_type :: string
  cs_active :: bool
  cs_category :: "string list"
  cs_tags :: "string list"
  cs_image :: string
  cs_banner :: string
  cs_rating :: rat
  cs_viewCount :: nat
  cs_scheduledReleaseDate :: nat
  cs_status :: status

text \<open>
  \<^verbatim>\<open>models/Series.js\<close> is not among the sources; a live series has the fields that the
  job's \<^verbatim>\<open>new Series({...})\<close> sets, and no unique index is assumed on it.
\<close>

record series =
  s_id :: nat
  s_title :: string
  s_description :: string
  s_totalEpisode :: nat
  s_freeEpisode :: nat
  s_free :: bool
  s_membersOnly :: bool
  s_type :: string
  s_active :: bool
  s_category :: "string list"
  s_tags :: "string list"
  s_image :: string
  s_banner :: string
  s_rating :: rat
  s_viewCount :: nat

record comingSoonEpisode =
  ce_id :: nat
  ce_seriesId :: "nat option"
  ce_comingSoonSeriesId :: "nat option"
  ce_episode :: nat
  ce_title :: string
  ce_coin :: nat
  ce_views :: nat
  ce_coinEarned :: nat
  ce_videoUrl :: string
  ce_videoThumbnail :: "string option"
  ce_scheduledReleaseDate :: nat
  ce_status :: status

record episode =
  e_id :: nat
  e_seriesId :: nat
  e_episode :: nat
  e_title :: string
  e_coin :: nat
  e_views :: nat
  e_coinEarned :: nat
  e_videoUrl :: string
  e_videoThumbnail :: "string option"

record seriesTransferLog =
  tl_id :: nat
  tl_comingSoonSeriesId :: nat
  tl_seriesId :: nat
  tl_title :: string
  tl_scheduledReleaseDate :: nat
  tl_transferredAt :: nat

subsection \<open>Errors, console lines and the store\<close>

text \<open>A JavaScript error object, as far as the job looks at it: \<^verbatim>\<open>code\<close> and \<^verbatim>\<open>message\<close>.\<close>

datatype err = Err (err_code: string) (err_message: string)

datatype level = LOG | WARN | ERROR

text \<open>One constructor for each message template of the job, with the values it interpolates.\<close>

datatype msg =
    FoundEpisodes nat
  | ResolvedSeriesId nat nat
  | SkippingEpisode nat
  | EpisodeAlreadyExists nat
  | ReleasedEpisode nat nat
  | DiskFullEpisode nat
  | ErrorReleasingEpisode nat string
  | ReleasedEpisodesCount nat
  | FailedEpisodesCount nat
  | ErrorInReleaseComingSoonEpisodes err
  | NoSeriesReady string nat nat
  | FoundSeries nat
  | ReleasedSeries string nat
  | ReleasingEpisodesForSeries nat string
  | ReleasedEpisodeForSeries nat string
  | ErrorReleasingEpisodeForSeries nat string string
  | DiskFullSeries nat
  | ErrorReleasingSeries nat string
  | ReleasedSeriesCount nat
  | FailedSeriesCount nat
  | ErrorInReleaseComingSoonSeries err

text \<open>
  The store and the environment of the job.  \<open>faults\<close> is the schedule of the store's
  answers to the awaited operations still to come: each operation takes the head,
  \<open>Some e\<close> makes it reject with \<open>e\<close> and change nothing, \<open>None\<close> (or an exhausted
  schedule) lets it run.  \<open>nextObjectId\<close> is the generator behind Mongoose's fresh
  \<^verbatim>\<open>_id\<close>s and \<open>clock\<close> is what \<^verbatim>\<open>new Date()\<close> reads.
\<close>

record store =
  comingSoonSeriesC :: "comingSoonSeries list"
  comingSoonEpisodeC :: "comingSoonEpisode list"
  seriesC :: "series list"
  episodeC :: "episode list"
  seriesTransferLogC :: "seriesTransferLog list"
  nextObjectId :: nat
  clock :: nat
  faults :: "err option list"
  console :: "(level \<times> msg) list"

type_synonym 'a io = "store \<Rightarrow> (err + 'a) \<times> store"

definition ret :: "'a \<Rightarrow> 'a io" where
  "ret x s = (Inr x, s)"

definition bindE :: "'a io \<Rightarrow> ('a \<Rightarrow> 'b io) \<Rightarrow> 'b io" where
  "bindE m f s = (case m s of (Inl e, s') \<Rightarrow> (Inl e, s') | (Inr x, s') \<Rightarrow> f x s')"

definition tryCatch :: "'a io \<Rightarrow> (err \<Rightarrow> 'a io) \<Rightarrow> 'a io" where
  "tryCatch m h s = (case m s of (Inl e, s') \<Rightarrow> h e s' | (Inr x, s') \<Rightarrow> (Inr x, s'))"

definition await :: "'a io \<Rightarrow> 'a io" where
  "await m s =
     (case faults s of
        [] \<Rightarrow> m s
      | None # fs \<Rightarrow> m (s\<lparr>faults := fs\<rparr>)
      | Some e # fs \<Rightarrow> (Inl e, s\<lparr>faults := fs\<rparr>))"

definition logged :: "level \<Rightarrow> msg \<Rightarrow> store \<Rightarrow> store" where
  "logged l m s = s\<lparr>console := console s @ [(l, m)]\<rparr>"

definition consoleLine :: "level \<Rightarrow> msg \<Rightarrow> unit io" where
  "consoleLine l m s = (Inr (), logged l m s)"

definition newDate :: "nat io" where
  "newDate s = (Inr (clock s), s)"

definition newObjectId :: "nat io" where
  "newObjectId s = (Inr (nextObjectId s), s\<lparr>nextObjectId := Suc (nextObjectId s)\<rparr>)"

subsection \<open>Store operations\<close>

text \<open>
  \<^verbatim>\<open>findByIdAndUpdate\<close> and \<^verbatim>\<open>findByIdAndDelete\<close> act on the first document with the
  given \<^verbatim>\<open>_id\<close> and do nothing (they resolve to \<^verbatim>\<open>null\<close>) when there is none.
\<close>

fun updateFirst :: "('a \<Rightarrow> bool) \<Rightarrow> ('a \<Rightarrow> 'a) \<Rightarrow> 'a list \<Rightarrow> 'a list" where
  "updateFirst p f [] = []"
| "updateFirst p f (x # xs) = (if p x then f x # xs else x # updateFirst p f xs)"

fun deleteFirst :: "('a \<Rightarrow> bool) \<Rightarrow> 'a list \<Rightarrow> 'a list" where
  "deleteFirst p [] = []"
| "deleteFirst p (x # xs) = (if p x then xs else x # deleteFirst p xs)"

text \<open>The filter \<^verbatim>\<open>{ status: 'pending', scheduledReleaseDate: { $lte: now } }\<close> of both scans.\<close>

definition episodeDue :: "nat \<Rightarrow> comingSoonEpisode \<Rightarrow> bool" where
  "episodeDue now e = (ce_status e = Pending \<and> ce_scheduledReleaseDate e \<le> now)"

definition seriesDue :: "nat \<Rightarrow> comingSoonSeries \<Rightarrow> bool" where
  "seriesDue now c = (cs_status c = Pending \<and> cs_scheduledReleaseDate c \<le> now)"

definition ComingSoonEpisode_findDue :: "nat \<Rightarrow> comingSoonEpisode list io" where
  "ComingSoonEpisode_findDue now s = (Inr (filter (episodeDue now) (comingSoonEpisodeC s)), s)"

definition SeriesTransferLog_findOne :: "nat \<Rightarrow> seriesTransferLog option io" where
  "SeriesTransferLog_findOne csid s =
     (Inr (find (\<lambda>l. tl_comingSoonSeriesId l = csid) (seriesTransferLogC s)), s)"

definition ComingSoonEpisode_setSeriesId :: "nat \<Rightarrow> nat \<Rightarrow> unit io" where
  "ComingSoonEpisode_setSeriesId i sid s =
     (Inr (), s\<lparr>comingSoonEpisodeC :=
        updateFirst (\<lambda>e. ce_id e = i) (\<lambda>e. e\<lparr>ce_seriesId := Some sid\<rparr>) (comingSoonEpisodeC s)\<rparr>)"

definition ComingSoonEpisode_setStatus :: "nat \<Rightarrow> status \<Rightarrow> unit io" where
  "ComingSoonEpisode_setStatus i st s =
     (Inr (), s\<lparr>comingSoonEpisodeC :=
        updateFirst (\<lambda>e. ce_id e = i) (\<lambda>e. e\<lparr>ce_status := st\<rparr>) (comingSoonEpisodeC s)\<rparr>)"

definition ComingSoonEpisode_findByIdAndDelete :: "nat \<Rightarrow> unit io" where
  "ComingSoonEpisode_findByIdAndDelete i s =
     (Inr (), s\<lparr>comingSoonEpisodeC := deleteFirst (\<lambda>e. ce_id e = i) (comingSoonEpisodeC s)\<rparr>)"

definition Episode_findOne :: "nat \<Rightarrow> nat \<Rightarrow> episode option io" where
  "Episode_findOne sid n s =
     (Inr (find (\<lambda>e. e_seriesId e = sid \<and> e_episode e = n) (episodeC s)), s)"

text \<open>
  \<^verbatim>\<open>episodeSchema.index({ seriesId: 1, episode: 1 }, { unique: true })\<close>: saving a second
  episode with the same pair is rejected by the store with its duplicate-key error 11000.
\<close>

definition duplicateKey :: err where
  "duplicateKey = Err ''11000'' ''E11000 duplicate key error''"

definition Episode_save :: "episode \<Rightarrow> unit io" where
  "Episode_save ep s =
     (if \<exists>e \<in> set (episodeC s). e_seriesId e = e_seriesId ep \<and> e_episode e = e_episode ep
      then (Inl duplicateKey, s)
      else (Inr (), s\<lparr>episodeC := episodeC s @ [ep]\<rparr>))"

definition ComingSoonSeries_findDue :: "nat \<Rightarrow> comingSoonSeries list io" where
  "ComingSoonSeries_findDue now s = (Inr (filter (seriesDue now) (comingSoonSeriesC s)), s)"

definition ComingSoonSeries_countFuture :: "nat \<Rightarrow> nat io" where
  "ComingSoonSeries_countFuture now s =
     (Inr (length (filter (\<lambda>c. cs_status c = Pending \<and> now < cs_scheduledReleaseDate c)
            (comingSoonSeriesC s))), s)"

definition ComingSoonSeries_findNext :: "nat \<Rightarrow> comingSoonSeries option io" where
  "ComingSoonSeries_findNext now s =
     (Inr (case sort_key cs_scheduledReleaseDate
                 (filter (\<lambda>c. cs_status c = Pending \<and> now < cs_scheduledReleaseDate c)
                    (comingSoonSeriesC s)) of
             [] \<Rightarrow> None
           | c # _ \<Rightarrow> Some c), s)"

definition Series_save :: "series \<Rightarrow> unit io" where
  "Series_save n s = (Inr (), s\<lparr>seriesC := seriesC s @ [n]\<rparr>)"

text \<open>\<^verbatim>\<open>updateMany({ comingSoonSeriesId: csid }, { $set: { seriesId: sid } })\<close>.\<close>

definition relinked :: "nat \<Rightarrow> nat \<Rightarrow> comingSoonEpisode \<Rightarrow> comingSoonEpisode" where
  "relinked csid sid e =
     (if ce_comingSoonSeriesId e = Some csid then e\<lparr>ce_seriesId := Some sid\<rparr> else e)"

definition ComingSoonEpisode_updateMany :: "nat \<Rightarrow> nat \<Rightarrow> unit io" where
  "ComingSoonEpisode_updateMany csid sid s =
     (Inr (), s\<lparr>comingSoonEpisodeC := map (relinked csid sid) (comingSoonEpisodeC s)\<rparr>)"

definition SeriesTransferLog_create :: "seriesTransferLog \<Rightarrow> unit io" where
  "SeriesTransferLog_create l s = (Inr (), s\<lparr>seriesTransferLogC := seriesTransferLogC s @ [l]\<rparr>)"

definition ComingSoonSeries_setStatus :: "nat \<Rightarrow> status \<Rightarrow> unit io" where
  "ComingSoonSeries_setStatus i st s =
     (Inr (), s\<lparr>comingSoonSeriesC :=
        updateFirst (\<lambda>c. cs_id c = i) (\<lambda>c. c\<lparr>cs_status := st\<rparr>) (comingSoonSeriesC s)\<rparr>)"

definition ComingSoonSeries_findByIdAndDelete :: "nat \<Rightarrow> unit io" where
  "ComingSoonSeries_findByIdAndDelete i s =
     (Inr (), s\<lparr>comingSoonSeriesC := deleteFirst (\<lambda>c. cs_id c = i) (comingSoonSeriesC s)\<rparr>)"

text \<open>
  The filter \<^verbatim>\<open>{ $or: [{ seriesId: sid }, { comingSoonSeriesId: csid }], status: 'pending' }\<close>,
  which has no condition on the episode's own release date.
\<close>

definition ofSeries :: "nat \<Rightarrow> nat \<Rightarrow> comingSoonEpisode \<Rightarrow> bool" where
  "ofSeries sid csid e =
     ((ce_seriesId e = Some sid \<or> ce_comingSoonSeriesId e = Some csid) \<and> ce_status e = Pending)"

definition ComingSoonEpisode_findOfSeries :: "nat \<Rightarrow> nat \<Rightarrow> comingSoonEpisode list io" where
  "ComingSoonEpisode_findOfSeries sid csid s =
     (Inr (filter (ofSeries sid csid) (comingSoonEpisodeC s)), s)"

subsection \<open>JavaScript's \<^verbatim>\<open>||\<close> on the copied fields\<close>

text \<open>\<^verbatim>\<open>x || 0\<close> on a number and \<^verbatim>\<open>x || ''\<close> on a string: the right operand when \<open>x\<close> is falsy.\<close>

definition orZero :: "'a::zero \<Rightarrow> 'a" where
  "orZero x = (if x = 0 then 0 else x)"

definition orEmpty :: "string \<Rightarrow> string" where
  "orEmpty x = (if x = [] then [] else x)"

subsection \<open>The Episode Promoter: \<^verbatim>\<open>releaseComingSoonEpisodes\<close>\<close>

type_synonym releasedEpisode = "nat \<times> nat \<times> nat"
type_synonym releasedSeries = "nat \<times> string"
type_synonym failure = "nat \<times> string"

definition newEpisodeOf :: "nat \<Rightarrow> nat \<Rightarrow> comingSoonEpisode \<Rightarrow> episode" where
  "newEpisodeOf i sid ce =
     \<lparr>e_id = i, e_seriesId = sid, e_episode = ce_episode ce,
      e_title = orEmpty (ce_title ce), e_coin = orZero (ce_coin ce),
      e_views = orZero (ce_views ce), e_coinEarned = orZero (ce_coinEarned ce),
      e_videoUrl = ce_videoUrl ce, e_videoThumbnail = ce_videoThumbnail ce\<rparr>"

text \<open>
  Lines 35--64: the series the episode is released under.  \<open>None\<close> is the loop's
  \<^verbatim>\<open>continue\<close>: silently when the transfer log has no entry for the episode's
  coming-soon series, with a warning when the episode has no linkage at all.
\<close>

definition resolveFinalSeriesId :: "comingSoonEpisode \<Rightarrow> nat option io" where
  "resolveFinalSeriesId ce =
     (case ce_seriesId ce of
        Some sid \<Rightarrow> ret (Some sid)
      | None \<Rightarrow>
          (case ce_comingSoonSeriesId ce of
             Some csid \<Rightarrow>
               bindE (await (SeriesTransferLog_findOne csid)) (\<lambda>transferLog.
                 case transferLog of
                   Some l \<Rightarrow>
                     bindE (await (ComingSoonEpisode_setSeriesId (ce_id ce) (tl_seriesId l))) (\<lambda>_.
                     bindE (consoleLine LOG (ResolvedSeriesId (tl_seriesId l) (ce_id ce))) (\<lambda>_.
                     ret (Some (tl_seriesId l))))
                 | None \<Rightarrow> ret None)
           | None \<Rightarrow>
               bindE (consoleLine WARN (SkippingEpisode (ce_id ce))) (\<lambda>_. ret None)))"

text \<open>
  Lines 66--108: an episode that already exists under the series is only removed from
  coming soon; otherwise the live episode is created first.  The result is what is pushed
  on \<^verbatim>\<open>released\<close>.
\<close>

definition materializeEpisode :: "comingSoonEpisode \<Rightarrow> nat \<Rightarrow> releasedEpisode option io" where
  "materializeEpisode ce finalSeriesId =
     bindE (await (Episode_findOne finalSeriesId (ce_episode ce))) (\<lambda>existingEpisode.
       case existingEpisode of
         Some _ \<Rightarrow>
           bindE (await (ComingSoonEpisode_setStatus (ce_id ce) Released)) (\<lambda>_.
           bindE (await (ComingSoonEpisode_findByIdAndDelete (ce_id ce))) (\<lambda>_.
           bindE (consoleLine LOG (EpisodeAlreadyExists (ce_episode ce))) (\<lambda>_.
           ret None)))
       | None \<Rightarrow>
           bindE newObjectId (\<lambda>i.
           bindE (await (Episode_save (newEpisodeOf i finalSeriesId ce))) (\<lambda>_.
           bindE (await (ComingSoonEpisode_setStatus (ce_id ce) Released)) (\<lambda>_.
           bindE (await (ComingSoonEpisode_findByIdAndDelete (ce_id ce))) (\<lambda>_.
           bindE (consoleLine LOG (ReleasedEpisode (ce_episode ce) finalSeriesId)) (\<lambda>_.
           ret (Some (i, finalSeriesId, ce_episode ce))))))))"

text \<open>Lines 34--108, the body of the \<^verbatim>\<open>try\<close>.\<close>

definition releaseEpisode :: "comingSoonEpisode \<Rightarrow> releasedEpisode option io" where
  "releaseEpisode ce =
     bindE (resolveFinalSeriesId ce) (\<lambda>resolved.
       case resolved of
         None \<Rightarrow> ret None
       | Some finalSeriesId \<Rightarrow> materializeEpisode ce finalSeriesId)"

text \<open>
  Lines 33--122: the \<^verbatim>\<open>for\<close> loop with its per-episode \<^verbatim>\<open>catch\<close>.  An error whose code is
  \<^verbatim>\<open>'ENOSPC'\<close> leaves the loop (\<^verbatim>\<open>break\<close>); any other error is pushed on \<^verbatim>\<open>errors\<close>.
\<close>

fun episodesLoop ::
  "comingSoonEpisode list \<Rightarrow> releasedEpisode list \<times> failure list \<Rightarrow> store
     \<Rightarrow> (releasedEpisode list \<times> failure list) \<times> store" where
  "episodesLoop [] acc s = (acc, s)"
| "episodesLoop (ce # rest) (released, errors) s =
     (case releaseEpisode ce s of
        (Inr None, s1) \<Rightarrow> episodesLoop rest (released, errors) s1
      | (Inr (Some r), s1) \<Rightarrow> episodesLoop rest (released @ [r], errors) s1
      | (Inl error, s1) \<Rightarrow>
          if err_code error = ''ENOSPC''
          then ((released, errors), logged ERROR (DiskFullEpisode (ce_id ce)) s1)
          else episodesLoop rest (released, errors @ [(ce_id ce, err_message error)])
                 (logged ERROR (ErrorReleasingEpisode (ce_id ce) (err_message error)) s1))"

definition episodesSummary :: "releasedEpisode list \<times> failure list \<Rightarrow> store \<Rightarrow> store" where
  "episodesSummary acc s =
     (let s1 = (if length (fst acc) > 0
                then logged LOG (ReleasedEpisodesCount (length (fst acc))) s else s)
      in if length (snd acc) > 0
         then logged ERROR (FailedEpisodesCount (length (snd acc))) s1 else s1)"

definition releaseComingSoonEpisodesBody :: "unit io" where
  "releaseComingSoonEpisodesBody =
     bindE newDate (\<lambda>now.
     bindE (await (ComingSoonEpisode_findDue now)) (\<lambda>episodesToRelease.
       if length episodesToRelease = 0 then ret ()
       else
         bindE (consoleLine LOG (FoundEpisodes (length episodesToRelease))) (\<lambda>_.
         (\<lambda>s. case episodesLoop episodesToRelease ([], []) s of
                (acc, s1) \<Rightarrow> (Inr (), episodesSummary acc s1)))))"

definition releaseComingSoonEpisodes :: "unit io" where
  "releaseComingSoonEpisodes =
     tryCatch releaseComingSoonEpisodesBody
       (\<lambda>error. consoleLine ERROR (ErrorInReleaseComingSoonEpisodes error))"

subsection \<open>The Series Promoter: \<^verbatim>\<open>releaseComingSoonSeries\<close>\<close>

definition newSeriesOf :: "nat \<Rightarrow> comingSoonSeries \<Rightarrow> series" where
  "newSeriesOf i cs =
     \<lparr>s_id = i, s_title = cs_title cs, s_description = cs_description cs,
      s_totalEpisode = cs_totalEpisode cs, s_freeEpisode = cs_freeEpisode cs,
      s_free = cs_free cs, s_membersOnly = cs_membersOnly cs, s_type = cs_type cs,
      s_active = cs_active cs, s_category = cs_category cs, s_tags = cs_tags cs,
      s_image = cs_image cs, s_banner = cs_banner cs, s_rating = orZero (cs_rating cs),
      s_viewCount = 0\<rparr>"

text \<open>
  Lines 179--218: create the live series, attach its id to the waiting episodes, log the
  transfer, mark the coming-soon series released and delete it.
\<close>

definition releaseSeriesCore :: "comingSoonSeries \<Rightarrow> series io" where
  "releaseSeriesCore cs =
     bindE newObjectId (\<lambda>i.
     bindE (await (Series_save (newSeriesOf i cs))) (\<lambda>_.
     bindE (await (ComingSoonEpisode_updateMany (cs_id cs) i)) (\<lambda>_.
     bindE newDate (\<lambda>transferredAt.
     bindE newObjectId (\<lambda>j.
     bindE (await (SeriesTransferLog_create
              \<lparr>tl_id = j, tl_comingSoonSeriesId = cs_id cs, tl_seriesId = i,
               tl_title = cs_title cs, tl_scheduledReleaseDate = cs_scheduledReleaseDate cs,
               tl_transferredAt = transferredAt\<rparr>)) (\<lambda>_.
     bindE (await (ComingSoonSeries_setStatus (cs_id cs) Released)) (\<lambda>_.
     bindE (await (ComingSoonSeries_findByIdAndDelete (cs_id cs))) (\<lambda>_.
     ret (newSeriesOf i cs)))))))))"

text \<open>Lines 241--278, the body of the inner \<^verbatim>\<open>try\<close>.\<close>

definition releaseEpisodeOfSeries :: "series \<Rightarrow> comingSoonEpisode \<Rightarrow> unit io" where
  "releaseEpisodeOfSeries newSeries ep =
     bindE (await (Episode_findOne (s_id newSeries) (ce_episode ep))) (\<lambda>existingEpisode.
       case existingEpisode of
         Some _ \<Rightarrow>
           bindE (await (ComingSoonEpisode_setStatus (ce_id ep) Released)) (\<lambda>_.
           bindE (await (ComingSoonEpisode_findByIdAndDelete (ce_id ep))) (\<lambda>_.
           consoleLine LOG (EpisodeAlreadyExists (ce_episode ep))))
       | None \<Rightarrow>
           bindE newObjectId (\<lambda>i.
           bindE (await (Episode_save (newEpisodeOf i (s_id newSeries) ep))) (\<lambda>_.
           bindE (await (ComingSoonEpisode_setStatus (ce_id ep) Released)) (\<lambda>_.
           bindE (await (ComingSoonEpisode_findByIdAndDelete (ce_id ep))) (\<lambda>_.
           consoleLine LOG (ReleasedEpisodeForSeries (ce_episode ep) (s_title newSeries)))))))"

text \<open>Lines 240--282: the inner loop; its \<^verbatim>\<open>catch\<close> writes one line and goes on.\<close>

fun releaseEpisodesOfSeries :: "series \<Rightarrow> comingSoonEpisode list \<Rightarrow> unit io" where
  "releaseEpisodesOfSeries newSeries [] = ret ()"
| "releaseEpisodesOfSeries newSeries (ep # rest) =
     bindE (tryCatch (releaseEpisodeOfSeries newSeries ep)
              (\<lambda>episodeError. consoleLine ERROR
                 (ErrorReleasingEpisodeForSeries (ce_id ep) (s_title newSeries)
                    (err_message episodeError))))
       (\<lambda>_. releaseEpisodesOfSeries newSeries rest)"

text \<open>Lines 225--283: what follows \<^verbatim>\<open>released.push\<close> inside the outer \<^verbatim>\<open>try\<close>.\<close>

definition releaseSeriesEpisodes :: "comingSoonSeries \<Rightarrow> series \<Rightarrow> unit io" where
  "releaseSeriesEpisodes cs newSeries =
     bindE (consoleLine LOG (ReleasedSeries (s_title newSeries) (s_id newSeries))) (\<lambda>_.
     bindE (await (ComingSoonEpisode_findOfSeries (s_id newSeries) (cs_id cs))) (\<lambda>episodesToRelease.
       if length episodesToRelease > 0 then
         bindE (consoleLine LOG
                  (ReleasingEpisodesForSeries (length episodesToRelease) (s_title newSeries))) (\<lambda>_.
         releaseEpisodesOfSeries newSeries episodesToRelease)
       else ret ()))"

text \<open>
  Lines 178--283, the body of the outer \<^verbatim>\<open>try\<close>, with the local \<^verbatim>\<open>released\<close> threaded
  through: the push happens before the series' episodes are looked up, so an error after
  it leaves the series on \<^verbatim>\<open>released\<close>.
\<close>

definition releaseSeries ::
  "comingSoonSeries \<Rightarrow> releasedSeries list \<Rightarrow> store
     \<Rightarrow> (err + unit) \<times> releasedSeries list \<times> store" where
  "releaseSeries cs released s =
     (case releaseSeriesCore cs s of
        (Inl e, s1) \<Rightarrow> (Inl e, released, s1)
      | (Inr newSeries, s1) \<Rightarrow>
          (case releaseSeriesEpisodes cs newSeries s1 of
             (r, s2) \<Rightarrow> (r, released @ [(s_id newSeries, s_title newSeries)], s2)))"

fun seriesLoop ::
  "comingSoonSeries list \<Rightarrow> releasedSeries list \<times> failure list \<Rightarrow> store
     \<Rightarrow> (releasedSeries list \<times> failure list) \<times> store" where
  "seriesLoop [] acc s = (acc, s)"
| "seriesLoop (cs # rest) (released, errors) s =
     (case releaseSeries cs released s of
        (Inr _, released', s1) \<Rightarrow> seriesLoop rest (released', errors) s1
      | (Inl error, released', s1) \<Rightarrow>
          if err_code error = ''ENOSPC''
          then ((released', errors), logged ERROR (DiskFullSeries (cs_id cs)) s1)
          else seriesLoop rest (released', errors @ [(cs_id cs, err_message error)])
                 (logged ERROR (ErrorReleasingSeries (cs_id cs) (err_message error)) s1))"

definition seriesSummary :: "releasedSeries list \<times> failure list \<Rightarrow> store \<Rightarrow> store" where
  "seriesSummary acc s =
     (let s1 = (if length (fst acc) > 0
                then logged LOG (ReleasedSeriesCount (length (fst acc))) s else s)
      in if length (snd acc) > 0
         then logged ERROR (FailedSeriesCount (length (snd acc))) s1 else s1)"

text \<open>\<^verbatim>\<open>Math.ceil((nextReleaseDate - now) / (1000 * 60 * 60 * 24))\<close> for a later date.\<close>

definition daysUntilRelease :: "nat \<Rightarrow> nat \<Rightarrow> nat" where
  "daysUntilRelease nextReleaseDate now =
     (nextReleaseDate - now + 86399999) div 86400000"

definition releaseComingSoonSeriesBody :: "unit io" where
  "releaseComingSoonSeriesBody =
     bindE newDate (\<lambda>now.
     bindE (await (ComingSoonSeries_findDue now)) (\<lambda>seriesToRelease.
       if length seriesToRelease = 0 then
         bindE (await (ComingSoonSeries_countFuture now)) (\<lambda>futureSeriesCount.
           if futureSeriesCount > 0 then
             bindE (await (ComingSoonSeries_findNext now)) (\<lambda>nextSeries.
               case nextSeries of
                 Some n \<Rightarrow>
                   consoleLine LOG
                     (NoSeriesReady (cs_title n) (cs_scheduledReleaseDate n)
                        (daysUntilRelease (cs_scheduledReleaseDate n) now))
               | None \<Rightarrow> ret ())
           else ret ())
       else
         bindE (consoleLine LOG (FoundSeries (length seriesToRelease))) (\<lambda>_.
         (\<lambda>s. case seriesLoop seriesToRelease ([], []) s of
                (acc, s1) \<Rightarrow> (Inr (), seriesSummary acc s1)))))"

definition releaseComingSoonSeries :: "unit io" where
  "releaseComingSoonSeries =
     tryCatch releaseComingSoonSeriesBody
       (\<lambda>error. consoleLine ERROR (ErrorInReleaseComingSoonSeries error))"
subsection \<open>Notions used to state the properties\<close>

text \<open>
  The state after the body of one loop iteration; the locals \<^verbatim>\<open>released\<close> and
  \<^verbatim>\<open>errors\<close> do not influence it.
\<close>

definition seriesNext :: "comingSoonSeries \<Rightarrow> store \<Rightarrow> store" where
  "seriesNext cs s = snd (snd (releaseSeries cs [] s))"

definition episodeNext :: "comingSoonEpisode \<Rightarrow> store \<Rightarrow> store" where
  "episodeNext ce s = snd (releaseEpisode ce s)"

text \<open>
  What MongoDB and Mongoose guarantee about identifiers: \<^verbatim>\<open>_id\<close> is unique within a
  collection, and an \<^verbatim>\<open>ObjectId\<close> found in the store was generated earlier than any that
  is generated from now on.
\<close>

definition wf :: "store \<Rightarrow> bool" where
  "wf s = (distinct (map cs_id (comingSoonSeriesC s))
         \<and> distinct (map ce_id (comingSoonEpisodeC s))
         \<and> distinct (map s_id (seriesC s))
         \<and> (\<forall>n\<in>set (seriesC s). s_id n < nextObjectId s)
         \<and> (\<forall>e\<in>set (comingSoonEpisodeC s). \<forall>i. ce_seriesId e = Some i \<longrightarrow> i < nextObjectId s))"

text \<open>\<open>quiet s s'\<close>: from \<open>s\<close> to \<open>s'\<close> the console only gained lines, none by \<^verbatim>\<open>console.error\<close>.\<close>

definition quiet :: "store \<Rightarrow> store \<Rightarrow> bool" where
  "quiet s s' = (\<exists>ls. console s' = console s @ ls \<and> (\<forall>x\<in>set ls. fst x \<noteq> ERROR))"

text \<open>\<open>sameData s s'\<close>: the two stores hold the same documents and the same id generator.\<close>

definition sameData :: "store \<Rightarrow> store \<Rightarrow> bool" where
  "sameData s s' =
     (comingSoonSeriesC s' = comingSoonSeriesC s \<and> comingSoonEpisodeC s' = comingSoonEpisodeC s
      \<and> seriesC s' = seriesC s \<and> episodeC s' = episodeC s
      \<and> seriesTransferLogC s' = seriesTransferLogC s \<and> nextObjectId s' = nextObjectId s)"

text \<open>
  \<open>grows s s'\<close>: the live collections and the transfer log of \<open>s'\<close> extend those of \<open>s\<close>,
  and no coming-soon document appeared.
\<close>

definition grows :: "store \<Rightarrow> store \<Rightarrow> bool" where
  "grows s s' =
     (prefix (seriesC s) (seriesC s') \<and> prefix (episodeC s) (episodeC s')
      \<and> prefix (seriesTransferLogC s) (seriesTransferLogC s')
      \<and> ce_id ` set (comingSoonEpisodeC s') \<subseteq> ce_id ` set (comingSoonEpisodeC s)
      \<and> cs_id ` set (comingSoonSeriesC s') \<subseteq> cs_id ` set (comingSoonSeriesC s)
      \<and> nextObjectId s \<le> nextObjectId s')"

text \<open>
  \<open>copiesEpisodeFields pe sid e\<close>: the live episode \<open>e\<close> belongs to the series \<open>sid\<close> and
  carries the number, title, coin cost, counters, video and thumbnail of the coming-soon
  episode \<open>pe\<close> (lines 259--268; the defaults \<^verbatim>\<open>|| ''\<close> and \<^verbatim>\<open>|| 0\<close> change nothing).
\<close>

definition copiesEpisodeFields :: "comingSoonEpisode \<Rightarrow> nat \<Rightarrow> episode \<Rightarrow> bool" where
  "copiesEpisodeFields pe sid e =
     (e_seriesId e = sid \<and> e_episode e = ce_episode pe \<and> e_title e = ce_title pe
      \<and> e_coin e = ce_coin pe \<and> e_views e = ce_views pe \<and> e_coinEarned e = ce_coinEarned pe
      \<and> e_videoUrl e = ce_videoUrl pe \<and> e_videoThumbnail e = ce_videoThumbnail pe)"

text \<open>
  \<open>promotedAs s s' d l\<close>: in \<open>s'\<close> the coming-soon series \<open>d\<close> is live under the series id
  of the transfer-log entry \<open>l\<close>, an id generated after \<open>s\<close>, and every episode that was
  pending in \<open>s\<close> with \<open>d\<close> as its coming-soon series is gone from coming soon and has a
  live episode of that series with its number: one that was in \<open>s\<close> already, or one made
  by \<^verbatim>\<open>new Episode\<close> from a pending episode of \<open>d\<close> with that number.
\<close>

definition promotedAs :: "store \<Rightarrow> store \<Rightarrow> comingSoonSeries \<Rightarrow> seriesTransferLog \<Rightarrow> bool" where
  "promotedAs s s' d l =
     (tl_comingSoonSeriesId l = cs_id d
      \<and> nextObjectId s \<le> tl_seriesId l
      \<and> newSeriesOf (tl_seriesId l) d \<in> set (seriesC s')
      \<and> (\<forall>pe\<in>set (comingSoonEpisodeC s).
            ce_comingSoonSeriesId pe = Some (cs_id d) \<and> ce_status pe = Pending \<longrightarrow>
              (\<forall>x\<in>set (comingSoonEpisodeC s'). ce_id x \<noteq> ce_id pe)
              \<and> (\<exists>e\<in>set (episodeC s').
                    e_seriesId e = tl_seriesId l \<and> e_episode e = ce_episode pe
                    \<and> (e \<in> set (episodeC s)
                         \<or> (\<exists>i. \<exists>pe'\<in>set (comingSoonEpisodeC s).
                               ce_comingSoonSeriesId pe' = Some (cs_id d) \<and> ce_status pe' = Pending
                               \<and> ce_episode pe' = ce_episode pe
                               \<and> e = newEpisodeOf i (tl_seriesId l) pe')))))"

text \<open>
  What the schemas add for episodes: the unique index of \<^verbatim>\<open>ComingSoonEpisode\<close> on
  \<^verbatim>\<open>(comingSoonSeriesId, episode)\<close>, which holds for the documents that have a
  \<^verbatim>\<open>comingSoonSeriesId\<close>, and that the \<^verbatim>\<open>seriesId\<close> of a live episode is an
  \<^verbatim>\<open>ObjectId\<close> generated before any that is generated from now on.
\<close>

definition uniquePending :: "store \<Rightarrow> bool" where
  "uniquePending s =
     distinct (map (\<lambda>e. (ce_comingSoonSeriesId e, ce_episode e))
                 (filter (\<lambda>e. ce_comingSoonSeriesId e \<noteq> None) (comingSoonEpisodeC s)))"

definition liveRefsOld :: "store \<Rightarrow> bool" where
  "liveRefsOld s = (\<forall>e\<in>set (episodeC s). e_seriesId e < nextObjectId s)"

text \<open>
  The series id that lines 35--64 arrive at when the store answers: the episode's own
  \<^verbatim>\<open>seriesId\<close>, else the one of the first transfer-log entry for its coming-soon series.
\<close>

definition resolved :: "seriesTransferLog list \<Rightarrow> comingSoonEpisode \<Rightarrow> nat option" where
  "resolved logs ce =
     (case ce_seriesId ce of
        Some sid \<Rightarrow> Some sid
      | None \<Rightarrow>
          (case ce_comingSoonSeriesId ce of
             None \<Rightarrow> None
           | Some csid \<Rightarrow> map_option tl_seriesId (find (\<lambda>l. tl_comingSoonSeriesId l = csid) logs)))"

text \<open>Every field of the live series except \<^verbatim>\<open>_id\<close> and \<^verbatim>\<open>viewCount\<close> is the coming-soon one.\<close>

definition copiesAllFields :: "comingSoonSeries \<Rightarrow> series \<Rightarrow> bool" where
  "copiesAllFields d n =
     (s_title n = cs_title d \<and> s_description n = cs_description d
      \<and> s_totalEpisode n = cs_totalEpisode d \<and> s_freeEpisode n = cs_freeEpisode d
      \<and> s_free n = cs_free d \<and> s_membersOnly n = cs_membersOnly d \<and> s_type n = cs_type d
      \<and> s_active n = cs_active d \<and> s_category n = cs_category d \<and> s_tags n = cs_tags d
      \<and> s_image n = cs_image d \<and> s_banner n = cs_banner d \<and> s_rating n = cs_rating d
      \<and> s_viewCount n = 0)"

text \<open>
  \<open>coreDone cs s sa\<close>: from \<open>s\<close> to \<open>sa\<close> the steps of lines 179--212 were carried out for
  the coming-soon series \<open>cs\<close>: its live series is saved, its episodes carry the new
  series' id, and its transfer-log entry is appended.
\<close>

definition coreDone :: "comingSoonSeries \<Rightarrow> store \<Rightarrow> store \<Rightarrow> bool" where
  "coreDone cs s sa =
     (seriesC sa = seriesC s @ [newSeriesOf (nextObjectId s) cs]
      \<and> comingSoonEpisodeC sa = map (relinked (cs_id cs) (nextObjectId s)) (comingSoonEpisodeC s)
      \<and> (\<exists>l. seriesTransferLogC sa = seriesTransferLogC s @ [l]
              \<and> tl_comingSoonSeriesId l = cs_id cs \<and> tl_seriesId l = nextObjectId s))"

text \<open>\<open>preserves P m\<close>: whatever \<open>m\<close> returns or throws, it leads from a store with \<open>P\<close> to one with \<open>P\<close>.\<close>

definition preserves :: "(store \<Rightarrow> bool) \<Rightarrow> 'a io \<Rightarrow> bool" where
  "preserves P m = (\<forall>s. P s \<longrightarrow> P (snd (m s)))"

text \<open>\<open>ignoresEnv P\<close>: \<open>P\<close> is about the documents, not about the fault schedule or the console.\<close>

definition ignoresEnv :: "(store \<Rightarrow> bool) \<Rightarrow> bool" where
  "ignoresEnv P = (\<forall>s fs ls. P s \<longrightarrow> P (s\<lparr>faults := fs\<rparr>) \<and> P (s\<lparr>console := ls\<rparr>))"

text \<open>\<open>P\<close> survives every write the Episode Promoter can make.\<close>

definition episodeWrites :: "(store \<Rightarrow> bool) \<Rightarrow> bool" where
  "episodeWrites P =
     (ignoresEnv P \<and> preserves P newObjectId
      \<and> (\<forall>i sid. preserves P (ComingSoonEpisode_setSeriesId i sid))
      \<and> (\<forall>i st. preserves P (ComingSoonEpisode_setStatus i st))
      \<and> (\<forall>i. preserves P (ComingSoonEpisode_findByIdAndDelete i))
      \<and> (\<forall>e. preserves P (Episode_save e)))"

text \<open>\<open>P\<close> survives every write the Series Promoter can make while it handles \<open>cs\<close>.\<close>

definition seriesWrites :: "(store \<Rightarrow> bool) \<Rightarrow> comingSoonSeries \<Rightarrow> bool" where
  "seriesWrites P cs =
     (episodeWrites P
      \<and> (\<forall>n. preserves P (Series_save n))
      \<and> (\<forall>sid. preserves P (ComingSoonEpisode_updateMany (cs_id cs) sid))
      \<and> (\<forall>l. tl_comingSoonSeriesId l = cs_id cs \<longrightarrow> preserves P (SeriesTransferLog_create l))
      \<and> (\<forall>st. preserves P (ComingSoonSeries_setStatus (cs_id cs) st))
      \<and> preserves P (ComingSoonSeries_findByIdAndDelete (cs_id cs)))"


text \<open>No two live episodes have the same series and episode number.\<close>

definition uniqueEpisodes :: "store \<Rightarrow> bool" where
  "uniqueEpisodes s = distinct (map (\<lambda>e. (e_seriesId e, e_episode e)) (episodeC s))"

subsection \<open>A small catalogue to run the job on\<close>

text \<open>
  Series X is due, series Y is scheduled for later, series Z is a leftover at status
  released.  Episode A waits for X and is itself
  scheduled for later; episode B belongs to the live series and is due; episode C is due
  but waits for Y; the live series has its episode 1 already.
\<close>

definition seriesX :: comingSoonSeries where
  "seriesX = \<lparr>cs_id = 1, cs_title = ''X'', cs_description = ''about X'', cs_totalEpisode = 2,
     cs_freeEpisode = 1, cs_free = False, cs_membersOnly = False, cs_type = ''Exclusive'',
     cs_active = True, cs_category = [''drama''], cs_tags = [], cs_image = ''x.png'',
     cs_banner = ''xb.png'', cs_rating = 9 / 2, cs_viewCount = 7,
     cs_scheduledReleaseDate = 99, cs_status = Pending\<rparr>"

definition seriesY :: comingSoonSeries where
  "seriesY = \<lparr>cs_id = 4, cs_title = ''Y'', cs_description = ''about Y'', cs_totalEpisode = 1,
     cs_freeEpisode = 0, cs_free = True, cs_membersOnly = False, cs_type = ''Free'',
     cs_active = True, cs_category = [''comedy''], cs_tags = [''new''], cs_image = ''y.png'',
     cs_banner = ''yb.png'', cs_rating = 0, cs_viewCount = 0,
     cs_scheduledReleaseDate = 5000, cs_status = Pending\<rparr>"

definition seriesZ :: comingSoonSeries where
  "seriesZ = \<lparr>cs_id = 8, cs_title = ''Z'', cs_description = ''about Z'', cs_totalEpisode = 1,
     cs_freeEpisode = 1, cs_free = True, cs_membersOnly = False, cs_type = ''Free'',
     cs_active = True, cs_category = [''drama''], cs_tags = [], cs_image = ''z.png'',
     cs_banner = ''zb.png'', cs_rating = 7, cs_viewCount = 0,
     cs_scheduledReleaseDate = 40, cs_status = Released\<rparr>"

definition episodeA :: comingSoonEpisode where
  "episodeA = \<lparr>ce_id = 2, ce_seriesId = None, ce_comingSoonSeriesId = Some 1, ce_episode = 1,
     ce_title = ''pilot'', ce_coin = 0, ce_views = 0, ce_coinEarned = 0, ce_videoUrl = ''a.mp4'',
     ce_videoThumbnail = None, ce_scheduledReleaseDate = 5000, ce_status = Pending\<rparr>"

definition episodeB :: comingSoonEpisode where
  "episodeB = \<lparr>ce_id = 5, ce_seriesId = Some 3, ce_comingSoonSeriesId = None, ce_episode = 2,
     ce_title = ''second'', ce_coin = 5, ce_views = 0, ce_coinEarned = 0, ce_videoUrl = ''b.mp4'',
     ce_videoThumbnail = Some ''b.png'', ce_scheduledReleaseDate = 50, ce_status = Pending\<rparr>"

definition episodeC0 :: comingSoonEpisode where
  "episodeC0 = \<lparr>ce_id = 6, ce_seriesId = None, ce_comingSoonSeriesId = Some 4, ce_episode = 3,
     ce_title = ''third'', ce_coin = 0, ce_views = 0, ce_coinEarned = 0, ce_videoUrl = ''c.mp4'',
     ce_videoThumbnail = None, ce_scheduledReleaseDate = 60, ce_status = Pending\<rparr>"

definition liveSeries :: series where
  "liveSeries = \<lparr>s_id = 3, s_title = ''L'', s_description = ''about L'', s_totalEpisode = 2,
     s_freeEpisode = 1, s_free = False, s_membersOnly = False, s_type = ''Premium'',
     s_active = True, s_category = [''drama''], s_tags = [], s_image = ''l.png'',
     s_banner = ''lb.png'', s_rating = 8, s_viewCount = 12\<rparr>"

definition liveEpisode :: episode where
  "liveEpisode = \<lparr>e_id = 7, e_seriesId = 3, e_episode = 1, e_title = ''one'', e_coin = 0,
     e_views = 4, e_coinEarned = 0, e_videoUrl = ''l1.mp4'', e_videoThumbnail = None\<rparr>"

definition exampleStore :: store where
  "exampleStore = \<lparr>comingSoonSeriesC = [seriesX, seriesY, seriesZ],
     comingSoonEpisodeC = [episodeA, episodeB, episodeC0],
     seriesC = [liveSeries], episodeC = [liveEpisode], seriesTransferLogC = [],
     nextObjectId = 10, clock = 100, faults = [], console = []\<rparr>"

text \<open>The same catalogue with a second due series, W, after X.\<close>

definition seriesW :: comingSoonSeries where
  "seriesW = \<lparr>cs_id = 9, cs_title = ''W'', cs_description = ''about W'', cs_totalEpisode = 3,
     cs_freeEpisode = 3, cs_free = True, cs_membersOnly = True, cs_type = ''Free'',
     cs_active = False, cs_category = [''action''], cs_tags = [''hot''], cs_image = ''w.png'',
     cs_banner = ''wb.png'', cs_rating = 0, cs_viewCount = 0,
     cs_scheduledReleaseDate = 100, cs_status = Pending\<rparr>"

definition busyStore :: store where
  "busyStore = exampleStore\<lparr>comingSoonSeriesC := [seriesX, seriesW, seriesY, seriesZ]\<rparr>"

text \<open>
  The catalogue after series Y went live as the series 3 in an earlier run that was cut
  short before it reached Y's episodes: the transfer log knows Y.
\<close>

definition transferOfY :: seriesTransferLog where
  "transferOfY = \<lparr>tl_id = 0, tl_comingSoonSeriesId = 4, tl_seriesId = 3, tl_title = ''Y'',
     tl_scheduledReleaseDate = 60, tl_transferredAt = 61\<rparr>"

definition linkedStore :: store where
  "linkedStore = exampleStore\<lparr>comingSoonSeriesC := [seriesX, seriesZ],
     seriesTransferLogC := [transferOfY]\<rparr>"

text \<open>The catalogue when episode 2 of the live series exists already.\<close>

definition liveEpisode2 :: episode where
  "liveEpisode2 = \<lparr>e_id = 0, e_seriesId = 3, e_episode = 2, e_title = ''two'', e_coin = 5,
     e_views = 1, e_coinEarned = 5, e_videoUrl = ''l2.mp4'', e_videoThumbnail = None\<rparr>"

definition dupStore :: store where
  "dupStore = exampleStore\<lparr>episodeC := [liveEpisode, liveEpisode2]\<rparr>"

definition diskFull :: err where
  "diskFull = Err ''ENOSPC'' ''no space left on device''"

definition timeout :: err where
  "timeout = Err ''ETIMEDOUT'' ''operation timed out''"

text \<open>
  The catalogue after a first run of \<^verbatim>\<open>releaseComingSoonSeries\<close> in which the store
  rejected one step for series X with a timeout: the creation of the transfer-log entry
  (the fourth awaited operation of the run), or the mark as released (the fifth).
\<close>

definition afterRejectedLog :: store where
  "afterRejectedLog =
     snd (releaseComingSoonSeries (exampleStore\<lparr>faults := [None, None, None, Some timeout]\<rparr>))"

definition afterRejectedMark :: store where
  "afterRejectedMark =
     snd (releaseComingSoonSeries (exampleStore\<lparr>faults := [None, None, None, None, Some timeout]\<rparr>))"
subsection \<open>Auxiliary facts\<close>

lemmas example_defs =
  exampleStore_def busyStore_def linkedStore_def dupStore_def seriesX_def seriesY_def seriesZ_def
  seriesW_def episodeA_def episodeB_def episodeC0_def liveSeries_def liveEpisode_def
  liveEpisode2_def transferOfY_def

lemma bindE_Inr: "m s = (Inr x, s') \<Longrightarrow> bindE m f s = f x s'"
  by (simp add: bindE_def)

lemma bindE_Inl: "m s = (Inl e, s') \<Longrightarrow> bindE m f s = (Inl e, s')"
  by (simp add: bindE_def)

lemma await_nofault: "faults s = [] \<Longrightarrow> await m s = m s"
  by (simp add: await_def)

lemmas op_defs =
  ComingSoonEpisode_findDue_def SeriesTransferLog_findOne_def ComingSoonEpisode_setSeriesId_def
  ComingSoonEpisode_setStatus_def ComingSoonEpisode_findByIdAndDelete_def Episode_findOne_def
  Episode_save_def ComingSoonSeries_findDue_def ComingSoonSeries_countFuture_def
  ComingSoonSeries_findNext_def Series_save_def ComingSoonEpisode_updateMany_def
  SeriesTransferLog_create_def ComingSoonSeries_setStatus_def
  ComingSoonSeries_findByIdAndDelete_def ComingSoonEpisode_findOfSeries_def

lemmas io_defs = ret_def bindE_def consoleLine_def logged_def newDate_def newObjectId_def

lemma logged_simps:
  "comingSoonSeriesC (logged l m s) = comingSoonSeriesC s"
  "comingSoonEpisodeC (logged l m s) = comingSoonEpisodeC s"
  "seriesC (logged l m s) = seriesC s"
  "episodeC (logged l m s) = episodeC s"
  "seriesTransferLogC (logged l m s) = seriesTransferLogC s"
  "nextObjectId (logged l m s) = nextObjectId s"
  "clock (logged l m s) = clock s"
  "faults (logged l m s) = faults s"
  "console (logged l m s) = console s @ [(l, m)]"
  by (simp_all add: logged_def)

lemma deleteFirst_updateFirst:
  "(\<And>x. p x \<Longrightarrow> p (f x)) \<Longrightarrow> deleteFirst p (updateFirst p f xs) = deleteFirst p xs"
  by (induction xs) auto

lemma releaseSeriesCore_nofault:
  assumes "faults s = []"
  shows "releaseSeriesCore cs s =
     (Inr (newSeriesOf (nextObjectId s) cs),
      s\<lparr>seriesC := seriesC s @ [newSeriesOf (nextObjectId s) cs],
        comingSoonEpisodeC :=
          map (relinked (cs_id cs) (nextObjectId s)) (comingSoonEpisodeC s),
        seriesTransferLogC := seriesTransferLogC s @
          [\<lparr>tl_id = Suc (nextObjectId s), tl_comingSoonSeriesId = cs_id cs,
            tl_seriesId = nextObjectId s, tl_title = cs_title cs,
            tl_scheduledReleaseDate = cs_scheduledReleaseDate cs, tl_transferredAt = clock s\<rparr>],
        comingSoonSeriesC := deleteFirst (\<lambda>c. cs_id c = cs_id cs) (comingSoonSeriesC s),
        nextObjectId := Suc (Suc (nextObjectId s))\<rparr>)"
  using assms
  by (simp add: releaseSeriesCore_def io_defs op_defs await_nofault deleteFirst_updateFirst)

lemma find_None_iff2: "(find P xs = None) = (\<not> (\<exists>x\<in>set xs. P x))"
  by (induction xs) auto

lemma quiet_refl: "quiet s s"
  by (simp add: quiet_def)

lemma quiet_trans: "quiet s s' \<Longrightarrow> quiet s' s'' \<Longrightarrow> quiet s s''"
  by (auto simp: quiet_def)

lemma releaseEpisodeOfSeries_nofault:
  assumes "faults s = []"
  shows "releaseEpisodeOfSeries ns ep s =
     (Inr (),
      if \<exists>e\<in>set (episodeC s). e_seriesId e = s_id ns \<and> e_episode e = ce_episode ep
      then s\<lparr>comingSoonEpisodeC := deleteFirst (\<lambda>e. ce_id e = ce_id ep) (comingSoonEpisodeC s),
             console := console s @ [(LOG, EpisodeAlreadyExists (ce_episode ep))]\<rparr>
      else s\<lparr>nextObjectId := Suc (nextObjectId s),
             episodeC := episodeC s @ [newEpisodeOf (nextObjectId s) (s_id ns) ep],
             comingSoonEpisodeC := deleteFirst (\<lambda>e. ce_id e = ce_id ep) (comingSoonEpisodeC s),
             console := console s @ [(LOG, ReleasedEpisodeForSeries (ce_episode ep) (s_title ns))]\<rparr>)"
proof (cases "find (\<lambda>e. e_seriesId e = s_id ns \<and> e_episode e = ce_episode ep) (episodeC s)")
  case None
  then have "\<not> (\<exists>e\<in>set (episodeC s). e_seriesId e = s_id ns \<and> e_episode e = ce_episode ep)"
    by (simp add: find_None_iff2)
  with None assms show ?thesis
    by (simp add: releaseEpisodeOfSeries_def io_defs op_defs await_nofault deleteFirst_updateFirst
        newEpisodeOf_def)
next
  case (Some a)
  then have "\<exists>e\<in>set (episodeC s). e_seriesId e = s_id ns \<and> e_episode e = ce_episode ep"
    using find_None_iff2[of "\<lambda>e. e_seriesId e = s_id ns \<and> e_episode e = ce_episode ep" "episodeC s"]
    by auto
  with Some assms show ?thesis
    by (simp add: releaseEpisodeOfSeries_def io_defs op_defs await_nofault deleteFirst_updateFirst)
qed

lemma releaseEpisodesOfSeries_nofault:
  assumes "faults s = []"
  shows "\<exists>s'. releaseEpisodesOfSeries ns eps s = (Inr (), s') \<and> faults s' = []
     \<and> comingSoonSeriesC s' = comingSoonSeriesC s \<and> seriesC s' = seriesC s
     \<and> seriesTransferLogC s' = seriesTransferLogC s \<and> clock s' = clock s
     \<and> comingSoonEpisodeC s' = fold (\<lambda>ep. deleteFirst (\<lambda>e. ce_id e = ce_id ep)) eps (comingSoonEpisodeC s)
     \<and> nextObjectId s \<le> nextObjectId s'
     \<and> (\<exists>new. episodeC s' = episodeC s @ new \<and> (\<forall>e\<in>set new. e_seriesId e = s_id ns))
     \<and> (\<forall>ep\<in>set eps. \<exists>e\<in>set (episodeC s'). e_seriesId e = s_id ns \<and> e_episode e = ce_episode ep)
     \<and> quiet s s'"
  using assms
proof (induction eps arbitrary: s)
  case Nil
  then show ?case by (simp add: ret_def quiet_refl)
next
  case (Cons ep eps)
  obtain s1 where s1: "releaseEpisodeOfSeries ns ep s = (Inr (), s1)"
    and f1: "faults s1 = []"
    and k1: "comingSoonSeriesC s1 = comingSoonSeriesC s" "seriesC s1 = seriesC s"
       "seriesTransferLogC s1 = seriesTransferLogC s" "clock s1 = clock s"
    and d1: "comingSoonEpisodeC s1 = deleteFirst (\<lambda>e. ce_id e = ce_id ep) (comingSoonEpisodeC s)"
    and n1: "nextObjectId s \<le> nextObjectId s1"
    and e1: "\<exists>new. episodeC s1 = episodeC s @ new \<and> (\<forall>e\<in>set new. e_seriesId e = s_id ns)"
    and h1: "\<exists>e\<in>set (episodeC s1). e_seriesId e = s_id ns \<and> e_episode e = ce_episode ep"
    and q1: "quiet s s1"
    using Cons.prems
    by (auto simp: releaseEpisodeOfSeries_nofault quiet_def newEpisodeOf_def)
  from Cons.IH[OF f1] obtain s' where
    r: "releaseEpisodesOfSeries ns eps s1 = (Inr (), s')" and f: "faults s' = []"
    and k: "comingSoonSeriesC s' = comingSoonSeriesC s1" "seriesC s' = seriesC s1"
       "seriesTransferLogC s' = seriesTransferLogC s1" "clock s' = clock s1"
    and d: "comingSoonEpisodeC s' = fold (\<lambda>ep. deleteFirst (\<lambda>e. ce_id e = ce_id ep)) eps (comingSoonEpisodeC s1)"
    and n: "nextObjectId s1 \<le> nextObjectId s'"
    and e: "\<exists>new. episodeC s' = episodeC s1 @ new \<and> (\<forall>e\<in>set new. e_seriesId e = s_id ns)"
    and h: "\<forall>ep\<in>set eps. \<exists>e\<in>set (episodeC s'). e_seriesId e = s_id ns \<and> e_episode e = ce_episode ep"
    and q: "quiet s1 s'"
    by blast
  have run: "releaseEpisodesOfSeries ns (ep # eps) s = (Inr (), s')"
    using s1 r by (simp add: bindE_def tryCatch_def)
  from e1 e have e': "\<exists>new. episodeC s' = episodeC s @ new \<and> (\<forall>e\<in>set new. e_seriesId e = s_id ns)"
    by auto
  from h1 e have h': "\<exists>e\<in>set (episodeC s'). e_seriesId e = s_id ns \<and> e_episode e = ce_episode ep"
    by auto
  show ?case
    using run f k k1 d d1 n n1 e' h h' quiet_trans[OF q1 q] by auto
qed

lemma releaseSeries_nofault:
  assumes "faults s = []"
  shows "\<exists>s'. releaseSeries cs released s = (Inr (), released @ [(nextObjectId s, cs_title cs)], s')
     \<and> seriesNext cs s = s'
     \<and> faults s' = [] \<and> clock s' = clock s
     \<and> comingSoonSeriesC s' = deleteFirst (\<lambda>c. cs_id c = cs_id cs) (comingSoonSeriesC s)
     \<and> seriesC s' = seriesC s @ [newSeriesOf (nextObjectId s) cs]
     \<and> seriesTransferLogC s' = seriesTransferLogC s @
          [\<lparr>tl_id = Suc (nextObjectId s), tl_comingSoonSeriesId = cs_id cs,
            tl_seriesId = nextObjectId s, tl_title = cs_title cs,
            tl_scheduledReleaseDate = cs_scheduledReleaseDate cs, tl_transferredAt = clock s\<rparr>]
     \<and> Suc (Suc (nextObjectId s)) \<le> nextObjectId s'
     \<and> comingSoonEpisodeC s' =
          fold (\<lambda>ep. deleteFirst (\<lambda>e. ce_id e = ce_id ep))
            (filter (ofSeries (nextObjectId s) (cs_id cs))
               (map (relinked (cs_id cs) (nextObjectId s)) (comingSoonEpisodeC s)))
            (map (relinked (cs_id cs) (nextObjectId s)) (comingSoonEpisodeC s))
     \<and> (\<exists>new. episodeC s' = episodeC s @ new \<and> (\<forall>e\<in>set new. e_seriesId e = nextObjectId s))
     \<and> (\<forall>ep\<in>set (filter (ofSeries (nextObjectId s) (cs_id cs))
                      (map (relinked (cs_id cs) (nextObjectId s)) (comingSoonEpisodeC s))).
           \<exists>e\<in>set (episodeC s'). e_seriesId e = nextObjectId s \<and> e_episode e = ce_episode ep)
     \<and> quiet s s'"
proof -
  let ?i = "nextObjectId s"
  let ?ns = "newSeriesOf ?i cs"
  let ?C1 = "map (relinked (cs_id cs) ?i) (comingSoonEpisodeC s)"
  let ?eps = "filter (ofSeries ?i (cs_id cs)) ?C1"
  define s1 where "s1 = snd (releaseSeriesCore cs s)"
  have core: "releaseSeriesCore cs s = (Inr ?ns, s1)"
    using assms by (simp add: s1_def releaseSeriesCore_nofault)
  have f1: "faults s1 = []" and c1: "clock s1 = clock s"
    and a1: "comingSoonSeriesC s1 = deleteFirst (\<lambda>c. cs_id c = cs_id cs) (comingSoonSeriesC s)"
    and b1: "seriesC s1 = seriesC s @ [?ns]"
    and t1: "seriesTransferLogC s1 = seriesTransferLogC s @
          [\<lparr>tl_id = Suc ?i, tl_comingSoonSeriesId = cs_id cs,
            tl_seriesId = ?i, tl_title = cs_title cs,
            tl_scheduledReleaseDate = cs_scheduledReleaseDate cs, tl_transferredAt = clock s\<rparr>]"
    and n1: "nextObjectId s1 = Suc (Suc ?i)"
    and e1: "comingSoonEpisodeC s1 = ?C1" and ep1: "episodeC s1 = episodeC s"
    and q1: "console s1 = console s"
    using assms by (simp_all add: s1_def releaseSeriesCore_nofault)
  let ?s2 = "logged LOG (ReleasedSeries (s_title ?ns) (s_id ?ns)) s1"
  have id: "s_id ?ns = ?i" "s_title ?ns = cs_title cs" by (simp_all add: newSeriesOf_def)
  have f2: "faults ?s2 = []" using f1 by (simp add: logged_def)
  have find2: "await (ComingSoonEpisode_findOfSeries (s_id ?ns) (cs_id cs)) ?s2 = (Inr ?eps, ?s2)"
    using f2 e1 by (simp add: await_nofault ComingSoonEpisode_findOfSeries_def id logged_def)
  show ?thesis
  proof (cases "?eps = []")
    case True
    have "releaseSeriesEpisodes cs ?ns s1 = (Inr (), ?s2)"
      using find2 True by (simp add: releaseSeriesEpisodes_def bindE_def consoleLine_def ret_def)
    then have run: "releaseSeries cs released s = (Inr (), released @ [(?i, cs_title cs)], ?s2)" for released
      using core by (simp add: releaseSeries_def id)
    have "quiet s ?s2" using q1 by (simp add: quiet_def logged_def)
    then show ?thesis
      using run[of released] run[of "[]"] True f2 c1 a1 b1 t1 n1 e1 ep1
      by (simp add: seriesNext_def logged_def)
  next
    case False
    let ?s3 = "logged LOG (ReleasingEpisodesForSeries (length ?eps) (s_title ?ns)) ?s2"
    have f3: "faults ?s3 = []" using f2 by (simp add: logged_def)
    from releaseEpisodesOfSeries_nofault[OF f3, of ?ns ?eps] obtain s' where
      r: "releaseEpisodesOfSeries ?ns ?eps ?s3 = (Inr (), s')" and f: "faults s' = []"
      and k: "comingSoonSeriesC s' = comingSoonSeriesC ?s3" "seriesC s' = seriesC ?s3"
        "seriesTransferLogC s' = seriesTransferLogC ?s3" "clock s' = clock ?s3"
      and d: "comingSoonEpisodeC s' = fold (\<lambda>ep. deleteFirst (\<lambda>e. ce_id e = ce_id ep)) ?eps (comingSoonEpisodeC ?s3)"
      and n: "nextObjectId ?s3 \<le> nextObjectId s'"
      and e: "\<exists>new. episodeC s' = episodeC ?s3 @ new \<and> (\<forall>e\<in>set new. e_seriesId e = s_id ?ns)"
      and h: "\<forall>ep\<in>set ?eps. \<exists>e\<in>set (episodeC s'). e_seriesId e = s_id ?ns \<and> e_episode e = ce_episode ep"
      and q: "quiet ?s3 s'"
      by blast
    have "releaseSeriesEpisodes cs ?ns s1 = (Inr (), s')"
      using find2 False r by (simp add: releaseSeriesEpisodes_def bindE_def consoleLine_def)
    then have run: "releaseSeries cs released s = (Inr (), released @ [(?i, cs_title cs)], s')" for released
      using core by (simp add: releaseSeries_def id)
    have "quiet s ?s3" using q1 by (simp add: quiet_def logged_def)
    then have qq: "quiet s s'" using q quiet_trans by blast
    show ?thesis
      using run[of released] run[of "[]"] f k d n e h qq c1 a1 b1 t1 n1 e1 ep1
      by (simp add: seriesNext_def logged_simps id)
  qed
qed

lemma deleteFirst_filter:
  "distinct (map k xs) \<Longrightarrow> deleteFirst (\<lambda>x. k x = i) xs = filter (\<lambda>x. k x \<noteq> i) xs"
proof (induction xs)
  case Nil
  then show ?case by simp
next
  case (Cons x xs)
  have "filter (\<lambda>y. k y \<noteq> i) xs = xs" if "k x = i"
  proof -
    have "k y \<noteq> i" if "y \<in> set xs" for y
    proof -
      from that have "k y \<in> k ` set xs" by (rule imageI)
      moreover have "k x \<notin> k ` set xs" using Cons.prems by simp
      ultimately show ?thesis using \<open>k x = i\<close> by metis
    qed
    then show ?thesis by (simp add: filter_True)
  qed
  with Cons show ?case by auto
qed

lemma fold_deleteFirst:
  "distinct (map k xs) \<Longrightarrow>
     fold (\<lambda>y. deleteFirst (\<lambda>x. k x = k y)) ys xs = filter (\<lambda>x. k x \<notin> k ` set ys) xs"
proof (induction ys arbitrary: xs)
  case Nil
  then show ?case by simp
next
  case (Cons y ys)
  have d: "distinct (map k (filter (\<lambda>x. k x \<noteq> k y) xs))"
    using Cons.prems by (simp add: distinct_map_filter)
  show ?case
    using Cons.IH[OF d] Cons.prems
    by (simp add: deleteFirst_filter conj_commute)
qed

lemma map_ce_id_relinked: "map ce_id (map (relinked a b) xs) = map ce_id xs"
  by (induction xs) (auto simp: relinked_def)

lemma wf_seriesNext:
  assumes "faults s = []" "wf s"
  shows "wf (seriesNext cs s)"
proof -
  let ?n = "nextObjectId s"
  let ?C1 = "map (relinked (cs_id cs) ?n) (comingSoonEpisodeC s)"
  from releaseSeries_nofault[OF assms(1), of cs "[]"] obtain s' where
    s': "seriesNext cs s = s'"
    and a: "comingSoonSeriesC s' = deleteFirst (\<lambda>c. cs_id c = cs_id cs) (comingSoonSeriesC s)"
    and b: "seriesC s' = seriesC s @ [newSeriesOf ?n cs]"
    and n: "Suc (Suc ?n) \<le> nextObjectId s'"
    and e: "comingSoonEpisodeC s' =
          fold (\<lambda>ep. deleteFirst (\<lambda>e. ce_id e = ce_id ep)) (filter (ofSeries ?n (cs_id cs)) ?C1) ?C1"
    by blast
  have d1: "distinct (map ce_id ?C1)"
    using assms(2) by (simp add: wf_def map_ce_id_relinked del: map_map)
  have e': "comingSoonEpisodeC s' =
      filter (\<lambda>x. ce_id x \<notin> ce_id ` set (filter (ofSeries ?n (cs_id cs)) ?C1)) ?C1"
    using e fold_deleteFirst[OF d1] by simp
  have 1: "distinct (map cs_id (comingSoonSeriesC s'))"
    using assms(2) a by (simp add: wf_def deleteFirst_filter distinct_map_filter)
  have 2: "distinct (map ce_id (comingSoonEpisodeC s'))"
    unfolding e' using d1 by (rule distinct_map_filter)
  have 3: "distinct (map s_id (seriesC s'))"
    using assms(2) b by (auto simp: wf_def newSeriesOf_def)
  have 4: "\<forall>n\<in>set (seriesC s'). s_id n < nextObjectId s'"
    using assms(2) b n by (auto simp: wf_def newSeriesOf_def)
  have "\<forall>e\<in>set ?C1. \<forall>i. ce_seriesId e = Some i \<longrightarrow> i < nextObjectId s'"
    using assms(2) n by (fastforce simp: wf_def relinked_def split: if_splits)
  then have 5: "\<forall>e\<in>set (comingSoonEpisodeC s'). \<forall>i. ce_seriesId e = Some i \<longrightarrow> i < nextObjectId s'"
    unfolding e' by auto
  show ?thesis
    unfolding s' wf_def using 1 2 3 4 5 by blast
qed

lemma seriesLoop_Cons_nofault:
  assumes "faults s = []"
  shows "seriesLoop (cs # rest) (released, errors) s =
         seriesLoop rest (released @ [(nextObjectId s, cs_title cs)], errors) (seriesNext cs s)"
  using releaseSeries_nofault[OF assms, of cs released] by auto

lemma grows_refl: "grows s s"
  by (simp add: grows_def)

lemma grows_trans: "grows s s' \<Longrightarrow> grows s' s'' \<Longrightarrow> grows s s''"
  unfolding grows_def by (meson order_trans prefix_order.order_trans)

lemma promotedAs_grows:
  assumes "promotedAs s s1 d l" "grows s1 s'"
  shows "promotedAs s s' d l"
proof -
  have a: "set (seriesC s1) \<subseteq> set (seriesC s')" "set (episodeC s1) \<subseteq> set (episodeC s')"
    using assms(2) by (auto simp: grows_def dest: set_mono_prefix)
  have b: "ce_id ` set (comingSoonEpisodeC s') \<subseteq> ce_id ` set (comingSoonEpisodeC s1)"
    using assms(2) by (simp add: grows_def)
  have c: "\<forall>x\<in>set (comingSoonEpisodeC s'). ce_id x \<noteq> i"
    if "\<forall>x\<in>set (comingSoonEpisodeC s1). ce_id x \<noteq> i" for i
    using that b by force
  show ?thesis
    unfolding promotedAs_def
  proof (intro conjI ballI impI)
    show "tl_comingSoonSeriesId l = cs_id d"
      using assms(1) by (simp add: promotedAs_def)
    show "nextObjectId s \<le> tl_seriesId l"
      using assms(1) by (simp add: promotedAs_def)
    show "newSeriesOf (tl_seriesId l) d \<in> set (seriesC s')"
      using assms(1) a(1) by (auto simp: promotedAs_def)
  next
    fix pe x
    assume pe: "pe \<in> set (comingSoonEpisodeC s)"
      "ce_comingSoonSeriesId pe = Some (cs_id d) \<and> ce_status pe = Pending"
      and x: "x \<in> set (comingSoonEpisodeC s')"
    from assms(1) pe have "\<forall>x\<in>set (comingSoonEpisodeC s1). ce_id x \<noteq> ce_id pe"
      unfolding promotedAs_def by blast
    from c[OF this] x show "ce_id x \<noteq> ce_id pe" by blast
  next
    fix pe
    assume pe: "pe \<in> set (comingSoonEpisodeC s)"
      "ce_comingSoonSeriesId pe = Some (cs_id d) \<and> ce_status pe = Pending"
    from assms(1) pe obtain e where e: "e \<in> set (episodeC s1)"
      "e_seriesId e = tl_seriesId l \<and> e_episode e = ce_episode pe
         \<and> (e \<in> set (episodeC s)
              \<or> (\<exists>i. \<exists>pe'\<in>set (comingSoonEpisodeC s).
                    ce_comingSoonSeriesId pe' = Some (cs_id d) \<and> ce_status pe' = Pending
                    \<and> ce_episode pe' = ce_episode pe
                    \<and> e = newEpisodeOf i (tl_seriesId l) pe'))"
      unfolding promotedAs_def by blast
    from e(1) a(2) have "e \<in> set (episodeC s')" by blast
    then show "\<exists>e\<in>set (episodeC s').
         e_seriesId e = tl_seriesId l \<and> e_episode e = ce_episode pe
         \<and> (e \<in> set (episodeC s)
              \<or> (\<exists>i. \<exists>pe'\<in>set (comingSoonEpisodeC s).
                    ce_comingSoonSeriesId pe' = Some (cs_id d) \<and> ce_status pe' = Pending
                    \<and> ce_episode pe' = ce_episode pe
                    \<and> e = newEpisodeOf i (tl_seriesId l) pe'))"
      using e(2) by (rule bexI[rotated])
  qed
qed

lemma set_deleteFirst: "set (deleteFirst p xs) \<subseteq> set xs"
  by (induction xs) auto

lemma fold_deleteFirst_subset: "set (fold (\<lambda>y. deleteFirst (p y)) ys xs) \<subseteq> set xs"
proof (induction ys arbitrary: xs)
  case Nil
  then show ?case by simp
next
  case (Cons y ys)
  have "set (fold (\<lambda>y. deleteFirst (p y)) ys (deleteFirst (p y) xs)) \<subseteq> set (deleteFirst (p y) xs)"
    by (rule Cons.IH)
  then show ?case using set_deleteFirst[of "p y" xs] by auto
qed

lemma grows_seriesNext:
  assumes "faults s = []"
  shows "grows s (seriesNext cs s)"
proof -
  let ?n = "nextObjectId s"
  let ?C1 = "map (relinked (cs_id cs) ?n) (comingSoonEpisodeC s)"
  from releaseSeries_nofault[OF assms(1), of cs "[]"] obtain s' where
    s': "seriesNext cs s = s'"
    and a: "comingSoonSeriesC s' = deleteFirst (\<lambda>c. cs_id c = cs_id cs) (comingSoonSeriesC s)"
    and b: "seriesC s' = seriesC s @ [newSeriesOf ?n cs]"
    and t: "\<exists>l. seriesTransferLogC s' = seriesTransferLogC s @ [l]"
    and n: "Suc (Suc ?n) \<le> nextObjectId s'"
    and e: "comingSoonEpisodeC s' =
          fold (\<lambda>ep. deleteFirst (\<lambda>e. ce_id e = ce_id ep)) (filter (ofSeries ?n (cs_id cs)) ?C1) ?C1"
    and p: "\<exists>new. episodeC s' = episodeC s @ new \<and> (\<forall>e\<in>set new. e_seriesId e = ?n)"
    by blast
  have "set (comingSoonEpisodeC s') \<subseteq> set ?C1"
    unfolding e by (rule fold_deleteFirst_subset)
  then have "ce_id ` set (comingSoonEpisodeC s') \<subseteq> ce_id ` set ?C1" by blast
  also have "ce_id ` set ?C1 = ce_id ` set (comingSoonEpisodeC s)"
    using map_ce_id_relinked[of "cs_id cs" ?n "comingSoonEpisodeC s"]
    by (metis list.set_map)
  finally have 1: "ce_id ` set (comingSoonEpisodeC s') \<subseteq> ce_id ` set (comingSoonEpisodeC s)" .
  have 2: "cs_id ` set (comingSoonSeriesC s') \<subseteq> cs_id ` set (comingSoonSeriesC s)"
    unfolding a using set_deleteFirst[of "\<lambda>c. cs_id c = cs_id cs" "comingSoonSeriesC s"] by blast
  show ?thesis
    unfolding s' grows_def using 1 2 b t n p by auto
qed

lemma seriesNext_keeps_others:
  assumes "faults s = []" "wf s" "pe \<in> set (comingSoonEpisodeC s)"
    and "ce_comingSoonSeriesId pe \<noteq> Some (cs_id cs)"
  shows "pe \<in> set (comingSoonEpisodeC (seriesNext cs s))"
proof -
  let ?n = "nextObjectId s"
  let ?C1 = "map (relinked (cs_id cs) ?n) (comingSoonEpisodeC s)"
  from releaseSeries_nofault[OF assms(1), of cs "[]"] obtain s' where
    s': "seriesNext cs s = s'"
    and e: "comingSoonEpisodeC s' =
          fold (\<lambda>ep. deleteFirst (\<lambda>e. ce_id e = ce_id ep)) (filter (ofSeries ?n (cs_id cs)) ?C1) ?C1"
    by blast
  have d1: "distinct (map ce_id ?C1)"
    using assms(2) by (simp add: wf_def map_ce_id_relinked del: map_map)
  have e': "comingSoonEpisodeC s' =
      filter (\<lambda>x. ce_id x \<notin> ce_id ` set (filter (ofSeries ?n (cs_id cs)) ?C1)) ?C1"
    using e fold_deleteFirst[OF d1] by simp
  have "relinked (cs_id cs) ?n pe = pe" using assms(4) by (simp add: relinked_def)
  then have in1: "pe \<in> set ?C1" using assms(3) by force
  have "ce_seriesId pe \<noteq> Some ?n" using assms(2,3) by (auto simp: wf_def)
  then have no: "\<not> ofSeries ?n (cs_id cs) pe" using assms(4) by (simp add: ofSeries_def)
  have uniq: "x = pe" if "x \<in> set ?C1" "ce_id x = ce_id pe" for x
    using d1 in1 that by (meson distinct_map inj_onD)
  have "ce_id pe \<notin> ce_id ` set (filter (ofSeries ?n (cs_id cs)) ?C1)"
  proof
    assume "ce_id pe \<in> ce_id ` set (filter (ofSeries ?n (cs_id cs)) ?C1)"
    then obtain x where x: "x \<in> set (filter (ofSeries ?n (cs_id cs)) ?C1)" "ce_id x = ce_id pe"
      by (metis imageE)
    then have "x \<in> set ?C1" "ofSeries ?n (cs_id cs) x" by simp_all
    with uniq[of x] x(2) no show False by blast
  qed
  then show ?thesis unfolding s' e' using in1 by simp
qed

lemma newEpisodeOf_relinked: "newEpisodeOf i sid (relinked a b pe) = newEpisodeOf i sid pe"
  by (simp add: newEpisodeOf_def relinked_def)

lemma newEpisodeOf_key:
  "e_seriesId (newEpisodeOf i sid pe) = sid" "e_episode (newEpisodeOf i sid pe) = ce_episode pe"
  by (simp_all add: newEpisodeOf_def)

lemma releaseEpisodesOfSeries_content:
  assumes "faults s = []"
  shows "\<forall>ep\<in>set eps. \<exists>e\<in>set (episodeC (snd (releaseEpisodesOfSeries ns eps s))).
      e_seriesId e = s_id ns \<and> e_episode e = ce_episode ep
      \<and> (e \<in> set (episodeC s)
           \<or> (\<exists>i. \<exists>ep'\<in>set eps. ce_episode ep' = ce_episode ep \<and> e = newEpisodeOf i (s_id ns) ep'))"
  using assms
proof (induction eps arbitrary: s)
  case Nil
  show ?case by simp
next
  case (Cons a eps)
  define s1 where "s1 = snd (releaseEpisodeOfSeries ns a s)"
  have r1: "releaseEpisodeOfSeries ns a s = (Inr (), s1)"
    using Cons.prems by (simp add: s1_def releaseEpisodeOfSeries_nofault)
  have f1: "faults s1 = []"
    using Cons.prems by (simp add: s1_def releaseEpisodeOfSeries_nofault)
  have e1: "episodeC s1 = episodeC s
      \<or> episodeC s1 = episodeC s @ [newEpisodeOf (nextObjectId s) (s_id ns) a]"
    using Cons.prems by (simp add: s1_def releaseEpisodeOfSeries_nofault)
  have h1: "\<exists>e\<in>set (episodeC s1). e_seriesId e = s_id ns \<and> e_episode e = ce_episode a
      \<and> (e \<in> set (episodeC s) \<or> e = newEpisodeOf (nextObjectId s) (s_id ns) a)"
  proof (cases "\<exists>e\<in>set (episodeC s). e_seriesId e = s_id ns \<and> e_episode e = ce_episode a")
    case True
    then have "episodeC s1 = episodeC s"
      using Cons.prems by (simp add: s1_def releaseEpisodeOfSeries_nofault)
    with True show ?thesis by auto
  next
    case False
    then have "episodeC s1 = episodeC s @ [newEpisodeOf (nextObjectId s) (s_id ns) a]"
      using Cons.prems by (simp add: s1_def releaseEpisodeOfSeries_nofault)
    then show ?thesis by (simp add: newEpisodeOf_key)
  qed
  let ?s' = "snd (releaseEpisodesOfSeries ns eps s1)"
  have step: "releaseEpisodesOfSeries ns (a # eps) s = releaseEpisodesOfSeries ns eps s1"
    using r1 by (simp add: bindE_def tryCatch_def)
  from releaseEpisodesOfSeries_nofault[OF f1, of ns eps]
  have sub: "set (episodeC s1) \<subseteq> set (episodeC ?s')" by auto
  have IH: "\<forall>ep\<in>set eps. \<exists>e\<in>set (episodeC ?s').
      e_seriesId e = s_id ns \<and> e_episode e = ce_episode ep
      \<and> (e \<in> set (episodeC s1)
           \<or> (\<exists>i. \<exists>ep'\<in>set eps. ce_episode ep' = ce_episode ep \<and> e = newEpisodeOf i (s_id ns) ep'))"
    using Cons.IH[OF f1] .
  show ?case
    unfolding step
  proof
    fix ep assume "ep \<in> set (a # eps)"
    then consider "ep = a" | "ep \<in> set eps" by auto
    then show "\<exists>e\<in>set (episodeC ?s').
      e_seriesId e = s_id ns \<and> e_episode e = ce_episode ep
      \<and> (e \<in> set (episodeC s)
           \<or> (\<exists>i. \<exists>ep'\<in>set (a # eps). ce_episode ep' = ce_episode ep \<and> e = newEpisodeOf i (s_id ns) ep'))"
    proof cases
      case 1
      from h1 obtain e where e: "e \<in> set (episodeC s1)" "e_seriesId e = s_id ns"
        "e_episode e = ce_episode a"
        "e \<in> set (episodeC s) \<or> e = newEpisodeOf (nextObjectId s) (s_id ns) a" by blast
      from e(1) sub have "e \<in> set (episodeC ?s')" by blast
      with e(2,3,4) 1 show ?thesis by auto
    next
      case 2
      from IH 2 obtain e where e: "e \<in> set (episodeC ?s')" "e_seriesId e = s_id ns"
        "e_episode e = ce_episode ep"
        "e \<in> set (episodeC s1)
           \<or> (\<exists>i. \<exists>ep'\<in>set eps. ce_episode ep' = ce_episode ep \<and> e = newEpisodeOf i (s_id ns) ep')"
        by blast
      from e(4) have "e \<in> set (episodeC s)
           \<or> (\<exists>i. \<exists>ep'\<in>set (a # eps). ce_episode ep' = ce_episode ep \<and> e = newEpisodeOf i (s_id ns) ep')"
      proof
        assume "e \<in> set (episodeC s1)"
        with e1 have "e \<in> set (episodeC s) \<or> e = newEpisodeOf (nextObjectId s) (s_id ns) a"
          by auto
        then show ?thesis
        proof
          assume "e \<in> set (episodeC s)" then show ?thesis ..
        next
          assume n: "e = newEpisodeOf (nextObjectId s) (s_id ns) a"
          then have "ce_episode a = ce_episode ep" using e(3) by (simp add: newEpisodeOf_key)
          with n show ?thesis by auto
        qed
      next
        assume "\<exists>i. \<exists>ep'\<in>set eps. ce_episode ep' = ce_episode ep \<and> e = newEpisodeOf i (s_id ns) ep'"
        then show ?thesis by auto
      qed
      with e(1,2,3) show ?thesis by blast
    qed
  qed
qed


lemma seriesNext_content:
  assumes "faults s = []"
  shows "\<forall>ep\<in>set (filter (ofSeries (nextObjectId s) (cs_id cs))
                    (map (relinked (cs_id cs) (nextObjectId s)) (comingSoonEpisodeC s))).
     \<exists>e\<in>set (episodeC (seriesNext cs s)).
        e_seriesId e = nextObjectId s \<and> e_episode e = ce_episode ep
        \<and> (e \<in> set (episodeC s)
             \<or> (\<exists>i. \<exists>ep'\<in>set (filter (ofSeries (nextObjectId s) (cs_id cs))
                         (map (relinked (cs_id cs) (nextObjectId s)) (comingSoonEpisodeC s))).
                   ce_episode ep' = ce_episode ep \<and> e = newEpisodeOf i (nextObjectId s) ep'))"
proof -
  let ?i = "nextObjectId s"
  let ?ns = "newSeriesOf ?i cs"
  let ?C1 = "map (relinked (cs_id cs) ?i) (comingSoonEpisodeC s)"
  let ?eps = "filter (ofSeries ?i (cs_id cs)) ?C1"
  define s1 where "s1 = snd (releaseSeriesCore cs s)"
  have core: "releaseSeriesCore cs s = (Inr ?ns, s1)"
    using assms by (simp add: s1_def releaseSeriesCore_nofault)
  have f1: "faults s1 = []" and e1: "comingSoonEpisodeC s1 = ?C1" and ep1: "episodeC s1 = episodeC s"
    using assms by (simp_all add: s1_def releaseSeriesCore_nofault)
  let ?s2 = "logged LOG (ReleasedSeries (s_title ?ns) (s_id ?ns)) s1"
  let ?s3 = "logged LOG (ReleasingEpisodesForSeries (length ?eps) (s_title ?ns)) ?s2"
  have id: "s_id ?ns = ?i" by (simp add: newSeriesOf_def)
  have f2: "faults ?s2 = []" using f1 by (simp add: logged_def)
  have f3: "faults ?s3 = []" using f2 by (simp add: logged_def)
  have ep3: "episodeC ?s3 = episodeC s" using ep1 by (simp add: logged_def)
  have find2: "await (ComingSoonEpisode_findOfSeries (s_id ?ns) (cs_id cs)) ?s2 = (Inr ?eps, ?s2)"
    using f2 e1 by (simp add: await_nofault ComingSoonEpisode_findOfSeries_def id logged_def)
  show ?thesis
  proof (cases "?eps = []")
    case True
    then show ?thesis by simp
  next
    case False
    have "releaseSeriesEpisodes cs ?ns s1 = releaseEpisodesOfSeries ?ns ?eps ?s3"
      using find2 False by (simp add: releaseSeriesEpisodes_def bindE_def consoleLine_def)
    then have sn: "seriesNext cs s = snd (releaseEpisodesOfSeries ?ns ?eps ?s3)"
      using core releaseEpisodesOfSeries_nofault[OF f3, of ?ns ?eps]
      by (auto simp: seriesNext_def releaseSeries_def)
    from releaseEpisodesOfSeries_content[OF f3, of ?eps ?ns] show ?thesis
      by (simp add: sn logged_simps ep1 id)
  qed
qed

lemma seriesNext_others_from:
  assumes "faults s = []" "pe \<in> set (comingSoonEpisodeC (seriesNext cs s))"
    and "ce_comingSoonSeriesId pe \<noteq> Some (cs_id cs)"
  shows "pe \<in> set (comingSoonEpisodeC s)"
proof -
  let ?n = "nextObjectId s"
  let ?C1 = "map (relinked (cs_id cs) ?n) (comingSoonEpisodeC s)"
  from releaseSeries_nofault[OF assms(1), of cs "[]"] obtain s' where
    s': "seriesNext cs s = s'"
    and e: "comingSoonEpisodeC s' =
          fold (\<lambda>ep. deleteFirst (\<lambda>e. ce_id e = ce_id ep)) (filter (ofSeries ?n (cs_id cs)) ?C1) ?C1"
    by blast
  have "set (comingSoonEpisodeC s') \<subseteq> set ?C1"
    unfolding e by (rule fold_deleteFirst_subset)
  with assms(2) s' have "pe \<in> set ?C1" by blast
  then obtain x where x: "x \<in> set (comingSoonEpisodeC s)" "pe = relinked (cs_id cs) ?n x"
    by auto
  have "ce_comingSoonSeriesId x = ce_comingSoonSeriesId pe"
    unfolding x(2) by (simp add: relinked_def)
  with assms(3) have "relinked (cs_id cs) ?n x = x" by (simp add: relinked_def)
  with x show ?thesis by simp
qed

lemma released_with_series_origin:
  assumes "wf s"
    and "ep \<in> set (filter (ofSeries (nextObjectId s) csid)
                     (map (relinked csid (nextObjectId s)) (comingSoonEpisodeC s)))"
  shows "\<exists>x\<in>set (comingSoonEpisodeC s).
      ce_comingSoonSeriesId x = Some csid \<and> ce_status x = Pending
      \<and> ce_episode x = ce_episode ep \<and> ep = relinked csid (nextObjectId s) x"
proof -
  let ?n = "nextObjectId s"
  from assms(2) obtain x where x: "x \<in> set (comingSoonEpisodeC s)" "ep = relinked csid ?n x"
    and o: "ofSeries ?n csid ep"
    by auto
  have old: "ce_seriesId x \<noteq> Some ?n" using assms(1) x(1) by (auto simp: wf_def)
  have "ce_comingSoonSeriesId x = Some csid"
  proof (rule ccontr)
    assume n: "ce_comingSoonSeriesId x \<noteq> Some csid"
    then have "ep = x" using x(2) by (simp add: relinked_def)
    with o n old show False by (simp add: ofSeries_def)
  qed
  moreover have "ce_status x = Pending" "ce_episode x = ce_episode ep"
    using o unfolding x(2) by (simp_all add: ofSeries_def relinked_def split: if_splits)
  ultimately show ?thesis using x by blast
qed

lemma promotedAs_head:
  assumes "faults s = []" "wf s"
  shows "promotedAs s (seriesNext cs s) cs (last (seriesTransferLogC (seriesNext cs s)))"
proof -
  let ?n = "nextObjectId s"
  let ?C1 = "map (relinked (cs_id cs) ?n) (comingSoonEpisodeC s)"
  let ?eps = "filter (ofSeries ?n (cs_id cs)) ?C1"
  from releaseSeries_nofault[OF assms(1), of cs "[]"] obtain s' where
    s': "seriesNext cs s = s'"
    and b: "seriesC s' = seriesC s @ [newSeriesOf ?n cs]"
    and t: "seriesTransferLogC s' = seriesTransferLogC s @
          [\<lparr>tl_id = Suc ?n, tl_comingSoonSeriesId = cs_id cs,
            tl_seriesId = ?n, tl_title = cs_title cs,
            tl_scheduledReleaseDate = cs_scheduledReleaseDate cs, tl_transferredAt = clock s\<rparr>]"
    and e: "comingSoonEpisodeC s' = fold (\<lambda>ep. deleteFirst (\<lambda>e. ce_id e = ce_id ep)) ?eps ?C1"
    by blast
  have h: "\<forall>ep\<in>set ?eps. \<exists>e\<in>set (episodeC s').
        e_seriesId e = ?n \<and> e_episode e = ce_episode ep
        \<and> (e \<in> set (episodeC s)
             \<or> (\<exists>i. \<exists>ep'\<in>set ?eps. ce_episode ep' = ce_episode ep \<and> e = newEpisodeOf i ?n ep'))"
    using seriesNext_content[OF assms(1), of cs] unfolding s' .
  have d1: "distinct (map ce_id ?C1)"
    using assms(2) by (simp add: wf_def map_ce_id_relinked del: map_map)
  have e': "comingSoonEpisodeC s' = filter (\<lambda>x. ce_id x \<notin> ce_id ` set ?eps) ?C1"
    using e fold_deleteFirst[OF d1] by simp
  have l: "tl_comingSoonSeriesId (last (seriesTransferLogC s')) = cs_id cs"
    "tl_seriesId (last (seriesTransferLogC s')) = ?n"
    by (simp_all add: t)
  have ep: "(\<forall>x\<in>set (comingSoonEpisodeC s'). ce_id x \<noteq> ce_id pe)
      \<and> (\<exists>e\<in>set (episodeC s'). e_seriesId e = ?n \<and> e_episode e = ce_episode pe
            \<and> (e \<in> set (episodeC s)
                 \<or> (\<exists>i. \<exists>pe'\<in>set (comingSoonEpisodeC s).
                       ce_comingSoonSeriesId pe' = Some (cs_id cs) \<and> ce_status pe' = Pending
                       \<and> ce_episode pe' = ce_episode pe \<and> e = newEpisodeOf i ?n pe')))"
    if "pe \<in> set (comingSoonEpisodeC s)" "ce_comingSoonSeriesId pe = Some (cs_id cs)"
      "ce_status pe = Pending" for pe
  proof -
    let ?pe = "relinked (cs_id cs) ?n pe"
    have in1: "?pe \<in> set ?C1" using that(1) by simp
    have "ofSeries ?n (cs_id cs) ?pe" using that(2,3) by (simp add: ofSeries_def relinked_def)
    with in1 have in2: "?pe \<in> set ?eps" by simp
    have same: "ce_id ?pe = ce_id pe" "ce_episode ?pe = ce_episode pe"
      by (simp_all add: relinked_def)
    from in2 have "ce_id pe \<in> ce_id ` set ?eps" using same(1) by (metis imageI)
    then have 1: "\<forall>x\<in>set (comingSoonEpisodeC s'). ce_id x \<noteq> ce_id pe"
      unfolding e' by auto
    from bspec[OF h in2] obtain e where e: "e \<in> set (episodeC s')"
      "e_seriesId e = ?n" "e_episode e = ce_episode pe"
      and or: "e \<in> set (episodeC s)
             \<or> (\<exists>i. \<exists>ep'\<in>set ?eps. ce_episode ep' = ce_episode pe \<and> e = newEpisodeOf i ?n ep')"
      unfolding same(2) by blast
    from or have "e \<in> set (episodeC s)
                 \<or> (\<exists>i. \<exists>pe'\<in>set (comingSoonEpisodeC s).
                       ce_comingSoonSeriesId pe' = Some (cs_id cs) \<and> ce_status pe' = Pending
                       \<and> ce_episode pe' = ce_episode pe \<and> e = newEpisodeOf i ?n pe')"
    proof
      assume "e \<in> set (episodeC s)" then show ?thesis ..
    next
      assume "\<exists>i. \<exists>ep'\<in>set ?eps. ce_episode ep' = ce_episode pe \<and> e = newEpisodeOf i ?n ep'"
      then obtain i ep' where ep': "ep' \<in> set ?eps" "ce_episode ep' = ce_episode pe"
        "e = newEpisodeOf i ?n ep'" by blast
      from released_with_series_origin[OF assms(2) ep'(1)] obtain x where
        x: "x \<in> set (comingSoonEpisodeC s)" "ce_comingSoonSeriesId x = Some (cs_id cs)"
          "ce_status x = Pending" "ce_episode x = ce_episode ep'"
          "ep' = relinked (cs_id cs) ?n x"
        by blast
      have "e = newEpisodeOf i ?n x"
        unfolding ep'(3) x(5) by (rule newEpisodeOf_relinked)
      with x ep'(2) show ?thesis by auto
    qed
    with e have 2: "\<exists>e\<in>set (episodeC s'). e_seriesId e = ?n \<and> e_episode e = ce_episode pe
            \<and> (e \<in> set (episodeC s)
                 \<or> (\<exists>i. \<exists>pe'\<in>set (comingSoonEpisodeC s).
                       ce_comingSoonSeriesId pe' = Some (cs_id cs) \<and> ce_status pe' = Pending
                       \<and> ce_episode pe' = ce_episode pe \<and> e = newEpisodeOf i ?n pe'))"
      by blast
    from 1 2 show ?thesis ..
  qed
  show ?thesis
    unfolding s' promotedAs_def l using b ep by simp
qed

lemma promotedAs_shift:
  assumes "faults s = []" "wf s" "cs_id x \<noteq> cs_id d" "promotedAs (seriesNext d s) s' x l"
  shows "promotedAs s s' x l"
proof -
  let ?s1 = "seriesNext d s"
  let ?n = "nextObjectId s"
  from releaseSeries_nofault[OF assms(1), of d "[]"] have
    n1: "Suc (Suc ?n) \<le> nextObjectId ?s1"
    and p1: "\<exists>new. episodeC ?s1 = episodeC s @ new \<and> (\<forall>e\<in>set new. e_seriesId e = ?n)"
    by auto
  have lo: "nextObjectId ?s1 \<le> tl_seriesId l" using assms(4) by (simp add: promotedAs_def)
  have old: "e \<in> set (episodeC s)" if "e \<in> set (episodeC ?s1)" "e_seriesId e = tl_seriesId l" for e
    using that p1 n1 lo by auto
  have keep: "pe \<in> set (comingSoonEpisodeC ?s1)"
    if "pe \<in> set (comingSoonEpisodeC s)" "ce_comingSoonSeriesId pe = Some (cs_id x)" for pe
    using seriesNext_keeps_others[OF assms(1,2) that(1), of d] that(2) assms(3) by simp
  have orig: "pe \<in> set (comingSoonEpisodeC s)"
    if "pe \<in> set (comingSoonEpisodeC ?s1)" "ce_comingSoonSeriesId pe = Some (cs_id x)" for pe
    using seriesNext_others_from[OF assms(1) that(1)] that(2) assms(3) by simp
  show ?thesis
    unfolding promotedAs_def
  proof (intro conjI ballI impI)
    show "tl_comingSoonSeriesId l = cs_id x" using assms(4) by (simp add: promotedAs_def)
    show "nextObjectId s \<le> tl_seriesId l" using lo n1 by simp
    show "newSeriesOf (tl_seriesId l) x \<in> set (seriesC s')"
      using assms(4) by (simp add: promotedAs_def)
  next
    fix pe y
    assume pe: "pe \<in> set (comingSoonEpisodeC s)"
      "ce_comingSoonSeriesId pe = Some (cs_id x) \<and> ce_status pe = Pending"
      and y: "y \<in> set (comingSoonEpisodeC s')"
    from keep[OF pe(1)] pe(2) have "pe \<in> set (comingSoonEpisodeC ?s1)" by simp
    with assms(4) pe(2) have "\<forall>y\<in>set (comingSoonEpisodeC s'). ce_id y \<noteq> ce_id pe"
      unfolding promotedAs_def by blast
    with y show "ce_id y \<noteq> ce_id pe" by blast
  next
    fix pe
    assume pe: "pe \<in> set (comingSoonEpisodeC s)"
      "ce_comingSoonSeriesId pe = Some (cs_id x) \<and> ce_status pe = Pending"
    from keep[OF pe(1)] pe(2) have "pe \<in> set (comingSoonEpisodeC ?s1)" by simp
    with assms(4) pe(2) obtain e where e: "e \<in> set (episodeC s')"
      "e_seriesId e = tl_seriesId l" "e_episode e = ce_episode pe"
      and or: "e \<in> set (episodeC ?s1)
              \<or> (\<exists>i. \<exists>pe'\<in>set (comingSoonEpisodeC ?s1).
                    ce_comingSoonSeriesId pe' = Some (cs_id x) \<and> ce_status pe' = Pending
                    \<and> ce_episode pe' = ce_episode pe
                    \<and> e = newEpisodeOf i (tl_seriesId l) pe')"
      unfolding promotedAs_def by blast
    from or have "e \<in> set (episodeC s)
              \<or> (\<exists>i. \<exists>pe'\<in>set (comingSoonEpisodeC s).
                    ce_comingSoonSeriesId pe' = Some (cs_id x) \<and> ce_status pe' = Pending
                    \<and> ce_episode pe' = ce_episode pe
                    \<and> e = newEpisodeOf i (tl_seriesId l) pe')"
    proof
      assume "e \<in> set (episodeC ?s1)"
      then have "e \<in> set (episodeC s)" using e(2) by (rule old)
      then show ?thesis ..
    next
      assume "\<exists>i. \<exists>pe'\<in>set (comingSoonEpisodeC ?s1).
                    ce_comingSoonSeriesId pe' = Some (cs_id x) \<and> ce_status pe' = Pending
                    \<and> ce_episode pe' = ce_episode pe
                    \<and> e = newEpisodeOf i (tl_seriesId l) pe'"
      then obtain i pe' where p: "pe' \<in> set (comingSoonEpisodeC ?s1)"
        "ce_comingSoonSeriesId pe' = Some (cs_id x)" "ce_status pe' = Pending"
        "ce_episode pe' = ce_episode pe" "e = newEpisodeOf i (tl_seriesId l) pe'"
        by blast
      from orig[OF p(1,2)] p(2,3,4,5) show ?thesis by blast
    qed
    with e show "\<exists>e\<in>set (episodeC s').
         e_seriesId e = tl_seriesId l \<and> e_episode e = ce_episode pe
         \<and> (e \<in> set (episodeC s)
              \<or> (\<exists>i. \<exists>pe'\<in>set (comingSoonEpisodeC s).
                    ce_comingSoonSeriesId pe' = Some (cs_id x) \<and> ce_status pe' = Pending
                    \<and> ce_episode pe' = ce_episode pe
                    \<and> e = newEpisodeOf i (tl_seriesId l) pe'))"
      by blast
  qed
qed

lemma notin_imageD: "k a \<notin> k ` A \<Longrightarrow> x \<in> A \<Longrightarrow> k x \<noteq> k a"
  by (metis imageI)

lemma seriesLoop_nofault:
  assumes "faults s = []" "wf s" "distinct (map cs_id ds)"
  shows "\<exists>released' s'. seriesLoop ds (released, errors) s = ((released', errors), s')
     \<and> faults s' = [] \<and> wf s' \<and> clock s' = clock s
     \<and> length released' = length released + length ds
     \<and> comingSoonSeriesC s' = filter (\<lambda>c. cs_id c \<notin> cs_id ` set ds) (comingSoonSeriesC s)
     \<and> length (seriesC s') = length (seriesC s) + length ds
     \<and> grows s s'
     \<and> (\<exists>newlogs. seriesTransferLogC s' = seriesTransferLogC s @ newlogs
            \<and> list_all2 (promotedAs s s') ds newlogs)
     \<and> quiet s s'"
  using assms
proof (induction ds arbitrary: s released)
  case Nil
  then show ?case by (simp add: grows_refl quiet_refl)
next
  case (Cons d ds)
  let ?s1 = "seriesNext d s"
  let ?n = "nextObjectId s"
  from releaseSeries_nofault[OF Cons.prems(1), of d "[]"] have
    f1: "faults ?s1 = []" and c1: "clock ?s1 = clock s"
    and a1: "comingSoonSeriesC ?s1 = deleteFirst (\<lambda>c. cs_id c = cs_id d) (comingSoonSeriesC s)"
    and b1: "seriesC ?s1 = seriesC s @ [newSeriesOf ?n d]"
    and t1: "\<exists>l. seriesTransferLogC ?s1 = seriesTransferLogC s @ [l]"
    and q1: "quiet s ?s1"
    by auto
  have w1: "wf ?s1" using Cons.prems(1,2) by (rule wf_seriesNext)
  have g1: "grows s ?s1" using Cons.prems(1) by (rule grows_seriesNext)
  have dd: "distinct (map cs_id ds)" using Cons.prems(3) by simp
  from Cons.IH[OF f1 w1 dd, of "released @ [(?n, cs_title d)]"] obtain released' s' where
    run: "seriesLoop ds (released @ [(?n, cs_title d)], errors) ?s1 = ((released', errors), s')"
    and f: "faults s' = []" and w: "wf s'" and c: "clock s' = clock ?s1"
    and len: "length released' = length (released @ [(?n, cs_title d)]) + length ds"
    and a: "comingSoonSeriesC s' = filter (\<lambda>c. cs_id c \<notin> cs_id ` set ds) (comingSoonSeriesC ?s1)"
    and b: "length (seriesC s') = length (seriesC ?s1) + length ds"
    and g: "grows ?s1 s'"
    and t: "\<exists>newlogs. seriesTransferLogC s' = seriesTransferLogC ?s1 @ newlogs
            \<and> list_all2 (promotedAs ?s1 s') ds newlogs"
    and q: "quiet ?s1 s'"
    by blast
  have run': "seriesLoop (d # ds) (released, errors) s = ((released', errors), s')"
    using run by (simp only: seriesLoop_Cons_nofault[OF Cons.prems(1)])
  have a': "comingSoonSeriesC s' = filter (\<lambda>c. cs_id c \<notin> cs_id ` set (d # ds)) (comingSoonSeriesC s)"
    using Cons.prems(2) unfolding a a1
    by (simp add: wf_def deleteFirst_filter conj_commute)
  from t1 obtain l0 where l0: "seriesTransferLogC ?s1 = seriesTransferLogC s @ [l0]" by blast
  from t obtain newlogs where nl: "seriesTransferLogC s' = seriesTransferLogC ?s1 @ newlogs"
    and pa: "list_all2 (promotedAs ?s1 s') ds newlogs" by blast
  have head: "promotedAs s s' d l0"
  proof -
    have "promotedAs s ?s1 d (last (seriesTransferLogC ?s1))"
      using Cons.prems(1,2) by (rule promotedAs_head)
    then have "promotedAs s ?s1 d l0" by (simp add: l0)
    then show ?thesis using g by (rule promotedAs_grows)
  qed
  have tail: "promotedAs s s' x l" if "x \<in> set ds" "promotedAs ?s1 s' x l" for x l
  proof -
    have "cs_id d \<notin> cs_id ` set ds" using Cons.prems(3) by simp
    then have ne: "cs_id x \<noteq> cs_id d" using that(1) by (rule notin_imageD)
    from Cons.prems(1,2) ne that(2) show ?thesis by (rule promotedAs_shift)
  qed
  have "list_all2 (promotedAs s s') ds newlogs"
    using pa tail by (auto simp: list_all2_conv_all_nth)
  then have pa': "list_all2 (promotedAs s s') (d # ds) (l0 # newlogs)"
    using head by simp
  have t': "seriesTransferLogC s' = seriesTransferLogC s @ (l0 # newlogs)"
    using nl l0 by simp
  show ?case
    using run' f w c c1 len a' b b1 grows_trans[OF g1 g] quiet_trans[OF q1 q] t' pa'
    by auto
qed

lemma resolveFinalSeriesId_nofault:
  assumes "faults s = []"
  shows "\<exists>s'. resolveFinalSeriesId ce s = (Inr (resolved (seriesTransferLogC s) ce), s')
     \<and> faults s' = [] \<and> clock s' = clock s
     \<and> comingSoonSeriesC s' = comingSoonSeriesC s \<and> seriesC s' = seriesC s
     \<and> episodeC s' = episodeC s \<and> seriesTransferLogC s' = seriesTransferLogC s
     \<and> nextObjectId s' = nextObjectId s \<and> quiet s s'
     \<and> (comingSoonEpisodeC s' = comingSoonEpisodeC s
          \<or> (\<exists>sid. resolved (seriesTransferLogC s) ce = Some sid \<and> comingSoonEpisodeC s' =
                updateFirst (\<lambda>e. ce_id e = ce_id ce) (\<lambda>e. e\<lparr>ce_seriesId := Some sid\<rparr>)
                  (comingSoonEpisodeC s)))"
  using assms
  by (auto simp: resolveFinalSeriesId_def resolved_def io_defs op_defs await_nofault quiet_def
      split: option.splits)

lemma materializeEpisode_nofault:
  assumes "faults s = []"
  shows "\<exists>r s'. materializeEpisode ce sid s = (Inr r, s')
     \<and> faults s' = [] \<and> clock s' = clock s
     \<and> comingSoonSeriesC s' = comingSoonSeriesC s \<and> seriesC s' = seriesC s
     \<and> seriesTransferLogC s' = seriesTransferLogC s
     \<and> nextObjectId s \<le> nextObjectId s' \<and> quiet s s'
     \<and> comingSoonEpisodeC s' = deleteFirst (\<lambda>e. ce_id e = ce_id ce) (comingSoonEpisodeC s)
     \<and> episodeC s' =
         (if \<exists>e\<in>set (episodeC s). e_seriesId e = sid \<and> e_episode e = ce_episode ce
          then episodeC s else episodeC s @ [newEpisodeOf (nextObjectId s) sid ce])"
proof (cases "find (\<lambda>e. e_seriesId e = sid \<and> e_episode e = ce_episode ce) (episodeC s)")
  case None
  then have "\<not> (\<exists>e\<in>set (episodeC s). e_seriesId e = sid \<and> e_episode e = ce_episode ce)"
    by (simp add: find_None_iff2)
  with None assms show ?thesis
    by (simp add: materializeEpisode_def io_defs op_defs await_nofault deleteFirst_updateFirst
        newEpisodeOf_def quiet_def)
next
  case (Some a)
  then have "\<exists>e\<in>set (episodeC s). e_seriesId e = sid \<and> e_episode e = ce_episode ce"
    using find_None_iff2[of "\<lambda>e. e_seriesId e = sid \<and> e_episode e = ce_episode ce" "episodeC s"]
    by auto
  with Some assms show ?thesis
    by (simp add: materializeEpisode_def io_defs op_defs await_nofault deleteFirst_updateFirst
        quiet_def)
qed

lemma releaseEpisode_nofault:
  assumes "faults s = []"
  shows "\<exists>r s'. releaseEpisode ce s = (Inr r, s') \<and> episodeNext ce s = s'
     \<and> faults s' = [] \<and> clock s' = clock s
     \<and> comingSoonSeriesC s' = comingSoonSeriesC s \<and> seriesC s' = seriesC s
     \<and> seriesTransferLogC s' = seriesTransferLogC s
     \<and> nextObjectId s \<le> nextObjectId s' \<and> quiet s s'
     \<and> (case resolved (seriesTransferLogC s) ce of
           None \<Rightarrow> comingSoonEpisodeC s' = comingSoonEpisodeC s \<and> episodeC s' = episodeC s
                     \<and> nextObjectId s' = nextObjectId s
         | Some sid \<Rightarrow>
             comingSoonEpisodeC s' = deleteFirst (\<lambda>e. ce_id e = ce_id ce) (comingSoonEpisodeC s)
             \<and> episodeC s' =
                 (if \<exists>e\<in>set (episodeC s). e_seriesId e = sid \<and> e_episode e = ce_episode ce
                  then episodeC s else episodeC s @ [newEpisodeOf (nextObjectId s) sid ce]))"
proof -
  from resolveFinalSeriesId_nofault[OF assms, of ce] obtain s1 where
    r1: "resolveFinalSeriesId ce s = (Inr (resolved (seriesTransferLogC s) ce), s1)"
    and f1: "faults s1 = []" and k1: "clock s1 = clock s"
      "comingSoonSeriesC s1 = comingSoonSeriesC s" "seriesC s1 = seriesC s"
      "episodeC s1 = episodeC s" "seriesTransferLogC s1 = seriesTransferLogC s"
      "nextObjectId s1 = nextObjectId s"
    and q1: "quiet s s1"
    and c1: "comingSoonEpisodeC s1 = comingSoonEpisodeC s
          \<or> (\<exists>sid. resolved (seriesTransferLogC s) ce = Some sid \<and> comingSoonEpisodeC s1 =
                updateFirst (\<lambda>e. ce_id e = ce_id ce) (\<lambda>e. e\<lparr>ce_seriesId := Some sid\<rparr>)
                  (comingSoonEpisodeC s))"
    by blast
  show ?thesis
  proof (cases "resolved (seriesTransferLogC s) ce")
    case None
    then have "releaseEpisode ce s = (Inr None, s1)"
      using r1 by (simp add: releaseEpisode_def bindE_def ret_def)
    then show ?thesis
      using None f1 k1 q1 c1 by (simp add: episodeNext_def)
  next
    case (Some sid)
    from materializeEpisode_nofault[OF f1, of ce sid] obtain r s' where
      m: "materializeEpisode ce sid s1 = (Inr r, s')"
      and f: "faults s' = []" and k: "clock s' = clock s1"
        "comingSoonSeriesC s' = comingSoonSeriesC s1" "seriesC s' = seriesC s1"
        "seriesTransferLogC s' = seriesTransferLogC s1"
      and n: "nextObjectId s1 \<le> nextObjectId s'" and q: "quiet s1 s'"
      and d: "comingSoonEpisodeC s' = deleteFirst (\<lambda>e. ce_id e = ce_id ce) (comingSoonEpisodeC s1)"
      and e: "episodeC s' =
         (if \<exists>e\<in>set (episodeC s1). e_seriesId e = sid \<and> e_episode e = ce_episode ce
          then episodeC s1 else episodeC s1 @ [newEpisodeOf (nextObjectId s1) sid ce])"
      by blast
    have run: "releaseEpisode ce s = (Inr r, s')"
      using r1 Some m by (simp add: releaseEpisode_def bindE_def)
    have d': "comingSoonEpisodeC s' = deleteFirst (\<lambda>e. ce_id e = ce_id ce) (comingSoonEpisodeC s)"
      using c1 d by (auto simp: deleteFirst_updateFirst)
    show ?thesis
      using run Some f k k1 n quiet_trans[OF q1 q] d' e by (simp add: episodeNext_def)
  qed
qed

lemma episodesLoop_Cons_nofault:
  assumes "faults s = []"
  shows "\<exists>r. episodesLoop (ce # rest) (released, errors) s =
              episodesLoop rest (released @ r, errors) (episodeNext ce s)"
proof -
  from releaseEpisode_nofault[OF assms, of ce] obtain r s' where
    "releaseEpisode ce s = (Inr r, s')" "episodeNext ce s = s'" by blast
  then show ?thesis
    by (cases r) (auto intro: exI[of _ "[]"])
qed

lemma episodesLoop_nofault:
  assumes "faults s = []" "distinct (map ce_id (comingSoonEpisodeC s))"
  shows "\<exists>released' s'. episodesLoop ds (released, errors) s = ((released', errors), s')
     \<and> faults s' = [] \<and> clock s' = clock s
     \<and> comingSoonSeriesC s' = comingSoonSeriesC s \<and> seriesC s' = seriesC s
     \<and> seriesTransferLogC s' = seriesTransferLogC s
     \<and> nextObjectId s \<le> nextObjectId s' \<and> quiet s s'
     \<and> prefix (episodeC s) (episodeC s')
     \<and> comingSoonEpisodeC s' =
         filter (\<lambda>e. ce_id e \<notin> ce_id ` set (filter (\<lambda>d. resolved (seriesTransferLogC s) d \<noteq> None) ds))
           (comingSoonEpisodeC s)
     \<and> (\<forall>d\<in>set ds. \<forall>sid. resolved (seriesTransferLogC s) d = Some sid \<longrightarrow>
           (\<exists>e\<in>set (episodeC s'). e_seriesId e = sid \<and> e_episode e = ce_episode d))
     \<and> ((\<forall>d\<in>set ds. resolved (seriesTransferLogC s) d = None) \<longrightarrow>
           episodeC s' = episodeC s \<and> nextObjectId s' = nextObjectId s)"
  using assms
proof (induction ds arbitrary: s released)
  case Nil
  then show ?case by (simp add: quiet_refl)
next
  case (Cons d ds)
  let ?L = "seriesTransferLogC s"
  let ?s1 = "episodeNext d s"
  from releaseEpisode_nofault[OF Cons.prems(1), of d] have
    f1: "faults ?s1 = []" and c1: "clock ?s1 = clock s"
    and k1: "comingSoonSeriesC ?s1 = comingSoonSeriesC s" "seriesC ?s1 = seriesC s"
    and t1: "seriesTransferLogC ?s1 = ?L"
    and n1: "nextObjectId s \<le> nextObjectId ?s1" and q1: "quiet s ?s1"
    and body: "case resolved ?L d of
           None \<Rightarrow> comingSoonEpisodeC ?s1 = comingSoonEpisodeC s \<and> episodeC ?s1 = episodeC s
                     \<and> nextObjectId ?s1 = nextObjectId s
         | Some sid \<Rightarrow>
             comingSoonEpisodeC ?s1 = deleteFirst (\<lambda>e. ce_id e = ce_id d) (comingSoonEpisodeC s)
             \<and> episodeC ?s1 =
                 (if \<exists>e\<in>set (episodeC s). e_seriesId e = sid \<and> e_episode e = ce_episode d
                  then episodeC s else episodeC s @ [newEpisodeOf (nextObjectId s) sid d])"
    by auto
  have C1: "comingSoonEpisodeC ?s1 =
      (if resolved ?L d = None then comingSoonEpisodeC s
       else filter (\<lambda>e. ce_id e \<noteq> ce_id d) (comingSoonEpisodeC s))"
    using body Cons.prems(2)
    by (cases "resolved ?L d") (simp_all add: deleteFirst_filter)
  have d1: "distinct (map ce_id (comingSoonEpisodeC ?s1))"
    unfolding C1 using Cons.prems(2) by (simp add: distinct_map_filter)
  have p1: "prefix (episodeC s) (episodeC ?s1)"
    using body by (cases "resolved ?L d") auto
  have h1: "\<exists>e\<in>set (episodeC ?s1). e_seriesId e = sid \<and> e_episode e = ce_episode d"
    if "resolved ?L d = Some sid" for sid
    using body that by (auto simp: newEpisodeOf_def)
  obtain r where step: "episodesLoop (d # ds) (released, errors) s =
      episodesLoop ds (released @ r, errors) ?s1"
    using episodesLoop_Cons_nofault[OF Cons.prems(1)] by blast
  from Cons.IH[OF f1 d1, of "released @ r"] obtain released' s' where
    run: "episodesLoop ds (released @ r, errors) ?s1 = ((released', errors), s')"
    and f: "faults s' = []" and c: "clock s' = clock ?s1"
    and k: "comingSoonSeriesC s' = comingSoonSeriesC ?s1" "seriesC s' = seriesC ?s1"
      "seriesTransferLogC s' = seriesTransferLogC ?s1"
    and n: "nextObjectId ?s1 \<le> nextObjectId s'" and q: "quiet ?s1 s'"
    and p: "prefix (episodeC ?s1) (episodeC s')"
    and C: "comingSoonEpisodeC s' =
         filter (\<lambda>e. ce_id e \<notin> ce_id ` set (filter (\<lambda>x. resolved (seriesTransferLogC ?s1) x \<noteq> None) ds))
           (comingSoonEpisodeC ?s1)"
    and h: "\<forall>x\<in>set ds. \<forall>sid. resolved (seriesTransferLogC ?s1) x = Some sid \<longrightarrow>
           (\<exists>e\<in>set (episodeC s'). e_seriesId e = sid \<and> e_episode e = ce_episode x)"
    and z: "(\<forall>x\<in>set ds. resolved (seriesTransferLogC ?s1) x = None) \<longrightarrow>
           episodeC s' = episodeC ?s1 \<and> nextObjectId s' = nextObjectId ?s1"
    by blast
  have C': "comingSoonEpisodeC s' =
      filter (\<lambda>e. ce_id e \<notin> ce_id ` set (filter (\<lambda>x. resolved ?L x \<noteq> None) (d # ds)))
        (comingSoonEpisodeC s)"
    unfolding C C1 t1 by (simp add: conj_commute)
  have h': "\<forall>x\<in>set (d # ds). \<forall>sid. resolved ?L x = Some sid \<longrightarrow>
           (\<exists>e\<in>set (episodeC s'). e_seriesId e = sid \<and> e_episode e = ce_episode x)"
  proof (intro ballI allI impI)
    fix x sid assume x: "x \<in> set (d # ds)" "resolved ?L x = Some sid"
    show "\<exists>e\<in>set (episodeC s'). e_seriesId e = sid \<and> e_episode e = ce_episode x"
    proof (cases "x = d")
      case True
      with h1 x(2) obtain e where e: "e \<in> set (episodeC ?s1)" "e_seriesId e = sid \<and> e_episode e = ce_episode x"
        by blast
      from p have "set (episodeC ?s1) \<subseteq> set (episodeC s')" by (rule set_mono_prefix)
      with e(1) have "e \<in> set (episodeC s')" by blast
      with e(2) show ?thesis by blast
    next
      case False
      with x h t1 show ?thesis by simp
    qed
  qed
  have z': "(\<forall>x\<in>set (d # ds). resolved ?L x = None) \<longrightarrow>
           episodeC s' = episodeC s \<and> nextObjectId s' = nextObjectId s"
    using z body t1 by auto
  show ?case
    using step run f c c1 k k1 t1 n n1 quiet_trans[OF q1 q] prefix_order.order_trans[OF p1 p] C' h' z'
    by auto
qed

lemma seriesSummary_simps:
  "comingSoonSeriesC (seriesSummary acc s) = comingSoonSeriesC s"
  "comingSoonEpisodeC (seriesSummary acc s) = comingSoonEpisodeC s"
  "seriesC (seriesSummary acc s) = seriesC s"
  "episodeC (seriesSummary acc s) = episodeC s"
  "seriesTransferLogC (seriesSummary acc s) = seriesTransferLogC s"
  "nextObjectId (seriesSummary acc s) = nextObjectId s"
  "clock (seriesSummary acc s) = clock s"
  "faults (seriesSummary acc s) = faults s"
  by (simp_all add: seriesSummary_def Let_def logged_def)

lemma episodesSummary_simps:
  "comingSoonSeriesC (episodesSummary acc s) = comingSoonSeriesC s"
  "comingSoonEpisodeC (episodesSummary acc s) = comingSoonEpisodeC s"
  "seriesC (episodesSummary acc s) = seriesC s"
  "episodeC (episodesSummary acc s) = episodeC s"
  "seriesTransferLogC (episodesSummary acc s) = seriesTransferLogC s"
  "nextObjectId (episodesSummary acc s) = nextObjectId s"
  "clock (episodesSummary acc s) = clock s"
  "faults (episodesSummary acc s) = faults s"
  by (simp_all add: episodesSummary_def Let_def logged_def)

lemma quiet_seriesSummary: "quiet s (seriesSummary (released, []) s)"
  by (simp add: quiet_def seriesSummary_def Let_def logged_def)

lemma quiet_episodesSummary: "quiet s (episodesSummary (released, []) s)"
  by (simp add: quiet_def episodesSummary_def Let_def logged_def)

lemma quiet_logged: "l \<noteq> ERROR \<Longrightarrow> quiet s (logged l m s)"
  by (simp add: quiet_def logged_def)

lemma wf_cong:
  assumes "comingSoonSeriesC s' = comingSoonSeriesC s" "comingSoonEpisodeC s' = comingSoonEpisodeC s"
    "seriesC s' = seriesC s" "nextObjectId s' = nextObjectId s"
  shows "wf s' = wf s"
  by (simp add: wf_def assms)

lemma grows_cong:
  assumes "comingSoonSeriesC t' = comingSoonSeriesC t" "comingSoonEpisodeC t' = comingSoonEpisodeC t"
    "seriesC t' = seriesC t" "episodeC t' = episodeC t"
    "seriesTransferLogC t' = seriesTransferLogC t" "nextObjectId t' = nextObjectId t"
  shows "grows s t' = grows s t" "grows t' u = grows t u"
  by (simp_all add: grows_def assms)

lemma promotedAs_cong:
  assumes "comingSoonEpisodeC t' = comingSoonEpisodeC t"
    "seriesC t' = seriesC t" "episodeC t' = episodeC t" "nextObjectId t' = nextObjectId t"
  shows "promotedAs s t' = promotedAs s t" "promotedAs t' u = promotedAs t u"
  by (simp_all add: promotedAs_def assms fun_eq_iff)

lemma releaseComingSoonSeries_nothing_due:
  assumes "faults s = []" "filter (seriesDue (clock s)) (comingSoonSeriesC s) = []"
  shows "\<exists>s'. releaseComingSoonSeries s = (Inr (), s') \<and> faults s' = [] \<and> clock s' = clock s
     \<and> sameData s s' \<and> quiet s s'"
  using assms
  by (auto simp: releaseComingSoonSeries_def releaseComingSoonSeriesBody_def tryCatch_def
      io_defs op_defs await_nofault sameData_def quiet_def split: list.splits)

lemma releaseComingSoonSeries_nofault:
  assumes "faults s = []" "wf s"
  shows "\<exists>s'. releaseComingSoonSeries s = (Inr (), s') \<and> faults s' = [] \<and> wf s'
     \<and> clock s' = clock s
     \<and> comingSoonSeriesC s' =
         filter (\<lambda>c. cs_id c \<notin> cs_id ` set (filter (seriesDue (clock s)) (comingSoonSeriesC s)))
           (comingSoonSeriesC s)
     \<and> length (seriesC s') =
         length (seriesC s) + length (filter (seriesDue (clock s)) (comingSoonSeriesC s))
     \<and> grows s s'
     \<and> (\<exists>newlogs. seriesTransferLogC s' = seriesTransferLogC s @ newlogs
            \<and> list_all2 (promotedAs s s') (filter (seriesDue (clock s)) (comingSoonSeriesC s)) newlogs)
     \<and> quiet s s'"
proof (cases "filter (seriesDue (clock s)) (comingSoonSeriesC s) = []")
  case True
  from releaseComingSoonSeries_nothing_due[OF assms(1) True] obtain s' where
    r: "releaseComingSoonSeries s = (Inr (), s')" and f: "faults s' = []" and c: "clock s' = clock s"
    and d: "sameData s s'" and q: "quiet s s'" by blast
  from d have w: "wf s'" using assms(2) by (simp add: sameData_def wf_def)
  from d have g: "grows s s'" by (simp add: sameData_def grows_def)
  show ?thesis
    using r f c w g q d True by (simp add: sameData_def)
next
  case False
  let ?due = "filter (seriesDue (clock s)) (comingSoonSeriesC s)"
  let ?s0 = "logged LOG (FoundSeries (length ?due)) s"
  have f0: "faults ?s0 = []" using assms(1) by (simp add: logged_simps)
  have w0: "wf ?s0" using assms(2) by (simp add: wf_def logged_simps)
  have dd: "distinct (map cs_id ?due)"
    using assms(2) by (simp add: wf_def distinct_map_filter)
  from seriesLoop_nofault[OF f0 w0 dd, of "[]" "[]"] obtain released' s1 where
    run: "seriesLoop ?due ([], []) ?s0 = ((released', []), s1)"
    and f: "faults s1 = []" and w: "wf s1" and c: "clock s1 = clock ?s0"
    and a: "comingSoonSeriesC s1 = filter (\<lambda>c. cs_id c \<notin> cs_id ` set ?due) (comingSoonSeriesC ?s0)"
    and b: "length (seriesC s1) = length (seriesC ?s0) + length ?due"
    and g: "grows ?s0 s1"
    and t: "\<exists>newlogs. seriesTransferLogC s1 = seriesTransferLogC ?s0 @ newlogs
            \<and> list_all2 (promotedAs ?s0 s1) ?due newlogs"
    and q: "quiet ?s0 s1"
    by blast
  let ?s' = "seriesSummary (released', []) s1"
  have body: "releaseComingSoonSeriesBody s = (Inr (), ?s')"
    using assms(1) False run
    by (simp add: releaseComingSoonSeriesBody_def bindE_def newDate_def await_nofault
        ComingSoonSeries_findDue_def consoleLine_def)
  then have r: "releaseComingSoonSeries s = (Inr (), ?s')"
    by (simp add: releaseComingSoonSeries_def tryCatch_def)
  have w': "wf ?s'" using w by (simp add: wf_def seriesSummary_simps)
  have g': "grows s ?s'" using g by (simp add: grows_def seriesSummary_simps logged_simps)
  have q': "quiet s ?s'"
    using quiet_trans[OF quiet_logged[of LOG s "FoundSeries (length ?due)"]
        quiet_trans[OF q quiet_seriesSummary[of s1 released']]] by simp
  have t': "\<exists>newlogs. seriesTransferLogC ?s' = seriesTransferLogC s @ newlogs
            \<and> list_all2 (promotedAs s ?s') ?due newlogs"
  proof -
    have eq: "promotedAs ?s0 s1 = promotedAs s ?s'"
      by (simp add: promotedAs_def fun_eq_iff seriesSummary_simps logged_simps)
    show ?thesis using t unfolding eq by (simp add: seriesSummary_simps logged_simps)
  qed
  show ?thesis
    using r f w' c a b g' t' q' by (simp add: seriesSummary_simps logged_simps)
qed

lemma copiesAllFields_newSeriesOf: "copiesAllFields d (newSeriesOf i d)"
  by (simp add: copiesAllFields_def newSeriesOf_def orZero_def)

lemma filter_key_single:
  "distinct (map k xs) \<Longrightarrow> x \<in> set xs \<Longrightarrow> filter (\<lambda>y. k y = k x) xs = [x]"
proof (induction xs)
  case Nil
  then show ?case by simp
next
  case (Cons a xs)
  have notin: "k a \<notin> k ` set xs" and d: "distinct (map k xs)" using Cons.prems(1) by simp_all
  show ?case
  proof (cases "x = a")
    case True
    have "filter (\<lambda>y. k y = k a) xs = []"
    proof -
      have "k y \<noteq> k a" if "y \<in> set xs" for y using notin that by (rule notin_imageD)
      then show ?thesis by (simp add: filter_empty_conv)
    qed
    with True show ?thesis by simp
  next
    case False
    with Cons.prems(2) have x: "x \<in> set xs" by simp
    then have "k x \<noteq> k a" using notin by (metis notin_imageD)
    then have "k a \<noteq> k x" by simp
    with Cons.IH[OF d x] show ?thesis by simp
  qed
qed

lemma preservesD: "preserves P m \<Longrightarrow> P s \<Longrightarrow> P (snd (m s))"
  by (simp add: preserves_def)

lemma preserves_ret: "preserves P (ret x)"
  by (simp add: preserves_def ret_def)

lemma preserves_bindE:
  assumes "preserves P m" "\<And>x. preserves P (f x)"
  shows "preserves P (bindE m f)"
  unfolding preserves_def
proof (intro allI impI)
  fix s assume "P s"
  with assms(1) have 1: "P (snd (m s))" by (rule preservesD)
  show "P (snd (bindE m f s))"
  proof (cases "m s")
    case (Pair r s1)
    with 1 have "P s1" by simp
    with assms(2) have "P (snd (f x s1))" for x by (rule preservesD)
    with Pair \<open>P s1\<close> show ?thesis by (cases r) (simp_all add: bindE_def)
  qed
qed

lemma preserves_tryCatch:
  assumes "preserves P m" "\<And>e. preserves P (h e)"
  shows "preserves P (tryCatch m h)"
  unfolding preserves_def
proof (intro allI impI)
  fix s assume "P s"
  with assms(1) have 1: "P (snd (m s))" by (rule preservesD)
  show "P (snd (tryCatch m h s))"
  proof (cases "m s")
    case (Pair r s1)
    with 1 have "P s1" by simp
    with assms(2) have "P (snd (h e s1))" for e by (rule preservesD)
    with Pair \<open>P s1\<close> show ?thesis by (cases r) (simp_all add: tryCatch_def)
  qed
qed

lemma preserves_await:
  assumes "ignoresEnv P" "preserves P m"
  shows "preserves P (await m)"
  unfolding preserves_def
proof (intro allI impI)
  fix s assume P: "P s"
  have env: "P (s\<lparr>faults := fs\<rparr>)" for fs
    using assms(1) P by (simp add: ignoresEnv_def)
  show "P (snd (await m s))"
  proof (cases "faults s")
    case Nil
    then show ?thesis using preservesD[OF assms(2) P] by (simp add: await_def)
  next
    case (Cons a fs)
    show ?thesis
    proof (cases a)
      case None
      then show ?thesis
        using Cons preservesD[OF assms(2) env[of fs]] by (simp add: await_def)
    next
      case (Some e)
      then show ?thesis using Cons env[of fs] by (simp add: await_def)
    qed
  qed
qed

lemma preserves_consoleLine: "ignoresEnv P \<Longrightarrow> preserves P (consoleLine l m)"
  by (simp add: preserves_def ignoresEnv_def consoleLine_def logged_def)

lemma ignoresEnv_logged: "ignoresEnv P \<Longrightarrow> P s \<Longrightarrow> P (logged l m s)"
  by (simp add: ignoresEnv_def logged_def)

lemma preserves_newDate: "preserves P newDate"
  by (simp add: preserves_def newDate_def)

lemma preserves_if:
  "preserves P a \<Longrightarrow> preserves P b \<Longrightarrow> preserves P (if c then a else b)"
  by simp

lemma preserves_case_option:
  "preserves P a \<Longrightarrow> (\<And>x. preserves P (b x)) \<Longrightarrow> preserves P (case v of None \<Rightarrow> a | Some x \<Rightarrow> b x)"
  by (cases v) simp_all

lemmas preserves_intros =
  preserves_ret preserves_bindE preserves_tryCatch preserves_await preserves_consoleLine
  preserves_newDate preserves_if preserves_case_option

lemma preserves_queries:
  "preserves P (ComingSoonEpisode_findDue now)"
  "preserves P (SeriesTransferLog_findOne csid)"
  "preserves P (Episode_findOne sid n)"
  "preserves P (ComingSoonSeries_findDue now)"
  "preserves P (ComingSoonSeries_countFuture now)"
  "preserves P (ComingSoonSeries_findNext now)"
  "preserves P (ComingSoonEpisode_findOfSeries sid csid)"
  by (simp_all add: preserves_def op_defs)

lemma preserves_materializeEpisode:
  assumes "episodeWrites P"
  shows "preserves P (materializeEpisode ce sid)"
  using assms unfolding materializeEpisode_def episodeWrites_def
  by (intro preserves_intros preserves_queries) simp_all

lemma preserves_resolveFinalSeriesId:
  assumes "episodeWrites P"
  shows "preserves P (resolveFinalSeriesId ce)"
  using assms unfolding resolveFinalSeriesId_def episodeWrites_def
  by (intro preserves_intros preserves_queries) simp_all

lemma preserves_releaseEpisode:
  assumes "episodeWrites P"
  shows "preserves P (releaseEpisode ce)"
  unfolding releaseEpisode_def
  by (intro preserves_intros preserves_resolveFinalSeriesId preserves_materializeEpisode assms)

lemma episodesLoop_preserves:
  assumes "episodeWrites P" "P s"
  shows "P (snd (episodesLoop ds acc s))"
  using assms(2)
proof (induction ds arbitrary: acc s)
  case Nil
  then show ?case by simp
next
  case (Cons ce ds)
  obtain released errors where acc: "acc = (released, errors)" by (cases acc)
  have env: "ignoresEnv P" using assms(1) by (simp add: episodeWrites_def)
  obtain r s1 where b: "releaseEpisode ce s = (r, s1)" by (cases "releaseEpisode ce s")
  have P1: "P s1"
    using preservesD[OF preserves_releaseEpisode[OF assms(1)] Cons.prems, of ce] b by simp
  show ?case
  proof (cases r)
    case (Inl e)
    then show ?thesis
      using acc b P1 Cons.IH ignoresEnv_logged[OF env P1] by simp
  next
    case (Inr x)
    then show ?thesis
      using acc b P1 Cons.IH by (cases x) simp_all
  qed
qed

lemma ignoresEnv_episodesSummary: "ignoresEnv P \<Longrightarrow> P s \<Longrightarrow> P (episodesSummary acc s)"
  by (simp add: episodesSummary_def Let_def ignoresEnv_logged)

lemma ignoresEnv_seriesSummary: "ignoresEnv P \<Longrightarrow> P s \<Longrightarrow> P (seriesSummary acc s)"
  by (simp add: seriesSummary_def Let_def ignoresEnv_logged)

lemma preserves_releaseComingSoonEpisodes:
  assumes "episodeWrites P"
  shows "preserves P releaseComingSoonEpisodes"
proof -
  have env: "ignoresEnv P" using assms by (simp add: episodeWrites_def)
  have loop: "preserves P (\<lambda>s. case episodesLoop ds ([], []) s of
                (acc, s1) \<Rightarrow> (Inr (), episodesSummary acc s1))" for ds
    unfolding preserves_def
  proof (intro allI impI)
    fix s assume "P s"
    then have "P (snd (episodesLoop ds ([], []) s))" by (rule episodesLoop_preserves[OF assms])
    then show "P (snd (case episodesLoop ds ([], []) s of
                (acc, s1) \<Rightarrow> (Inr (), episodesSummary acc s1)))"
      by (cases "episodesLoop ds ([], []) s") (simp add: ignoresEnv_episodesSummary[OF env])
  qed
  show ?thesis
    unfolding releaseComingSoonEpisodes_def releaseComingSoonEpisodesBody_def
    by (intro preserves_intros preserves_queries env loop)
qed

lemma preserves_releaseEpisodeOfSeries:
  assumes "episodeWrites P"
  shows "preserves P (releaseEpisodeOfSeries ns ep)"
  using assms unfolding releaseEpisodeOfSeries_def episodeWrites_def
  by (intro preserves_intros preserves_queries) simp_all

lemma preserves_releaseEpisodesOfSeries:
  assumes "episodeWrites P"
  shows "preserves P (releaseEpisodesOfSeries ns eps)"
proof (induction eps)
  case Nil
  show ?case by (simp add: preserves_ret)
next
  case (Cons ep eps)
  have env: "ignoresEnv P" using assms by (simp add: episodeWrites_def)
  show ?case
    unfolding releaseEpisodesOfSeries.simps
    by (intro preserves_intros preserves_releaseEpisodeOfSeries assms env Cons.IH)
qed

lemma preserves_releaseSeriesCore:
  assumes "seriesWrites P cs"
  shows "preserves P (releaseSeriesCore cs)"
  using assms unfolding releaseSeriesCore_def seriesWrites_def episodeWrites_def
  by (intro preserves_intros preserves_queries) simp_all

lemma preserves_releaseSeriesEpisodes:
  assumes "episodeWrites P"
  shows "preserves P (releaseSeriesEpisodes cs ns)"
proof -
  have env: "ignoresEnv P" using assms by (simp add: episodeWrites_def)
  show ?thesis
    unfolding releaseSeriesEpisodes_def
    by (intro preserves_intros preserves_queries preserves_releaseEpisodesOfSeries assms env)
qed

lemma releaseSeries_preserves:
  assumes "seriesWrites P cs" "P s"
  shows "P (snd (snd (releaseSeries cs released s)))"
proof -
  have ew: "episodeWrites P" using assms(1) by (simp add: seriesWrites_def)
  obtain r s1 where c: "releaseSeriesCore cs s = (r, s1)" by (cases "releaseSeriesCore cs s")
  have P1: "P s1" using preservesD[OF preserves_releaseSeriesCore[OF assms(1)] assms(2)] c by simp
  show ?thesis
  proof (cases r)
    case (Inl e)
    then show ?thesis using c P1 by (simp add: releaseSeries_def)
  next
    case (Inr ns)
    obtain r2 s2 where e: "releaseSeriesEpisodes cs ns s1 = (r2, s2)"
      by (cases "releaseSeriesEpisodes cs ns s1")
    have "P s2" using preservesD[OF preserves_releaseSeriesEpisodes[OF ew] P1, of cs ns] e by simp
    then show ?thesis using c Inr e by (simp add: releaseSeries_def)
  qed
qed

lemma seriesLoop_preserves:
  assumes "\<forall>cs\<in>set ds. seriesWrites P cs" "ignoresEnv P" "P s"
  shows "P (snd (seriesLoop ds acc s))"
  using assms(1,3)
proof (induction ds arbitrary: acc s)
  case Nil
  then show ?case by simp
next
  case (Cons cs ds)
  obtain released errors where acc: "acc = (released, errors)" by (cases acc)
  obtain r released' s1 where b: "releaseSeries cs released s = (r, released', s1)"
    by (cases "releaseSeries cs released s") auto
  have sw: "seriesWrites P cs" and rest: "\<forall>cs\<in>set ds. seriesWrites P cs" using Cons.prems(1) by simp_all
  have P1: "P s1" using releaseSeries_preserves[OF sw Cons.prems(2), of released] b by simp
  show ?case
  proof (cases r)
    case (Inl e)
    then show ?thesis
      using acc b P1 Cons.IH[OF rest] ignoresEnv_logged[OF assms(2) P1] by simp
  next
    case (Inr x)
    then show ?thesis
      using acc b P1 Cons.IH[OF rest] by simp
  qed
qed

lemma releaseComingSoonSeries_preserves:
  assumes "\<forall>cs\<in>set (filter (seriesDue (clock s)) (comingSoonSeriesC s)). seriesWrites P cs"
    and "ignoresEnv P" "P s"
  shows "P (snd (releaseComingSoonSeries s))"
proof -
  let ?due = "filter (seriesDue (clock s)) (comingSoonSeriesC s)"
  have env: "P (s\<lparr>faults := fs\<rparr>)" for fs using assms(2,3) by (simp add: ignoresEnv_def)
  have catch: "P (snd (releaseComingSoonSeries s))" if "P (snd (releaseComingSoonSeriesBody s))"
    using that assms(2)
    by (cases "releaseComingSoonSeriesBody s"; cases "fst (releaseComingSoonSeriesBody s)")
      (auto simp: releaseComingSoonSeries_def tryCatch_def consoleLine_def ignoresEnv_logged)
  have empty: "preserves P
         (bindE (await (ComingSoonSeries_countFuture now)) (\<lambda>futureSeriesCount.
           if futureSeriesCount > 0 then
             bindE (await (ComingSoonSeries_findNext now)) (\<lambda>nextSeries.
               case nextSeries of
                 Some n \<Rightarrow>
                   consoleLine LOG
                     (NoSeriesReady (cs_title n) (cs_scheduledReleaseDate n)
                        (daysUntilRelease (cs_scheduledReleaseDate n) now))
               | None \<Rightarrow> ret ())
           else ret ()))" for now
    by (intro preserves_intros preserves_queries assms(2))
  have nonempty: "P (snd ((bindE (consoleLine LOG (FoundSeries (length ?due))) (\<lambda>_.
         (\<lambda>s. case seriesLoop ?due ([], []) s of
                (acc, s1) \<Rightarrow> (Inr (), seriesSummary acc s1)))) s0))" if "P s0" for s0
  proof -
    have "P (logged LOG (FoundSeries (length ?due)) s0)" using assms(2) that by (rule ignoresEnv_logged)
    from seriesLoop_preserves[OF assms(1,2) this, of "([], [])"]
    show ?thesis
      by (cases "seriesLoop ?due ([], []) (logged LOG (FoundSeries (length ?due)) s0)")
        (simp add: bindE_def consoleLine_def ignoresEnv_seriesSummary[OF assms(2)])
  qed
  have "P (snd (releaseComingSoonSeriesBody s))"
  proof (cases "await (ComingSoonSeries_findDue (clock s)) s")
    case (Pair r s0)
    have P0: "P s0"
      using Pair env assms(3)
      by (auto simp: await_def ComingSoonSeries_findDue_def split: list.splits option.splits)
    show ?thesis
    proof (cases r)
      case (Inl e)
      then show ?thesis using Pair P0
        by (simp add: releaseComingSoonSeriesBody_def bindE_def newDate_def)
    next
      case (Inr ds)
      have ds: "ds = ?due"
        using Pair Inr
        by (auto simp: await_def ComingSoonSeries_findDue_def split: list.splits option.splits)
      show ?thesis
      proof (cases "length ?due = 0")
        case True
        then show ?thesis
          using Pair Inr ds preservesD[OF empty P0, of "clock s"]
          by (simp add: releaseComingSoonSeriesBody_def bindE_def[of newDate] bindE_def[of "await (ComingSoonSeries_findDue (clock s))"] newDate_def)
      next
        case False
        then show ?thesis
          using Pair Inr ds nonempty[OF P0]
          by (simp add: releaseComingSoonSeriesBody_def bindE_def[of newDate] bindE_def[of "await (ComingSoonSeries_findDue (clock s))"] newDate_def)
      qed
    qed
  qed
  then show ?thesis by (rule catch)
qed

lemma map_updateFirst: "(\<And>x. k (f x) = k x) \<Longrightarrow> map k (updateFirst p f xs) = map k xs"
  by (induction xs) auto

lemma image_updateFirst: "(\<And>x. k (f x) = k x) \<Longrightarrow> k ` set (updateFirst p f xs) = k ` set xs"
  using map_updateFirst[of k f p xs] by (metis list.set_map)

lemma in_updateFirst: "x \<in> set xs \<Longrightarrow> \<not> p x \<Longrightarrow> x \<in> set (updateFirst p f xs)"
  by (induction xs) auto

lemma in_deleteFirst: "x \<in> set xs \<Longrightarrow> \<not> p x \<Longrightarrow> x \<in> set (deleteFirst p xs)"
  by (induction xs) auto

lemma image_relinked: "ce_id ` set (map (relinked a b) xs) = ce_id ` set xs"
  using map_ce_id_relinked[of a b xs] by (metis list.set_map)

lemma in_deleteFirstD: "x \<in> set (deleteFirst p xs) \<Longrightarrow> x \<in> set xs"
  using set_deleteFirst[of p xs] by blast

lemma episodeWrites_grows: "episodeWrites (grows s0)"
  unfolding episodeWrites_def ignoresEnv_def preserves_def
  by (auto simp: grows_def op_defs newObjectId_def image_updateFirst
      dest!: in_deleteFirstD intro: prefix_prefix)

lemma seriesWrites_grows: "seriesWrites (grows s0) cs"
  unfolding seriesWrites_def
proof (intro conjI allI impI)
  show "episodeWrites (grows s0)" by (rule episodeWrites_grows)
qed (auto simp: preserves_def grows_def op_defs image_updateFirst image_relinked
      simp del: set_map dest!: in_deleteFirstD intro: prefix_prefix)




lemma episodeWrites_uniqueEpisodes: "episodeWrites uniqueEpisodes"
  unfolding episodeWrites_def ignoresEnv_def preserves_def
  by (auto simp: uniqueEpisodes_def op_defs newObjectId_def)

lemma seriesWrites_uniqueEpisodes: "seriesWrites uniqueEpisodes cs"
  unfolding seriesWrites_def
  by (auto simp: episodeWrites_uniqueEpisodes preserves_def uniqueEpisodes_def op_defs)

lemma releaseComingSoonEpisodes_nofault:
  assumes "faults s = []" "distinct (map ce_id (comingSoonEpisodeC s))"
  shows "\<exists>s'. releaseComingSoonEpisodes s = (Inr (), s') \<and> faults s' = [] \<and> clock s' = clock s
     \<and> comingSoonSeriesC s' = comingSoonSeriesC s \<and> seriesC s' = seriesC s
     \<and> seriesTransferLogC s' = seriesTransferLogC s
     \<and> nextObjectId s \<le> nextObjectId s' \<and> quiet s s'
     \<and> prefix (episodeC s) (episodeC s')
     \<and> comingSoonEpisodeC s' =
         filter (\<lambda>e. ce_id e \<notin> ce_id ` set (filter (\<lambda>d. resolved (seriesTransferLogC s) d \<noteq> None)
                   (filter (episodeDue (clock s)) (comingSoonEpisodeC s))))
           (comingSoonEpisodeC s)
     \<and> (\<forall>d\<in>set (filter (episodeDue (clock s)) (comingSoonEpisodeC s)).
           \<forall>sid. resolved (seriesTransferLogC s) d = Some sid \<longrightarrow>
             (\<exists>e\<in>set (episodeC s'). e_seriesId e = sid \<and> e_episode e = ce_episode d))
     \<and> ((\<forall>d\<in>set (filter (episodeDue (clock s)) (comingSoonEpisodeC s)).
            resolved (seriesTransferLogC s) d = None) \<longrightarrow>
           episodeC s' = episodeC s \<and> nextObjectId s' = nextObjectId s)"
proof (cases "filter (episodeDue (clock s)) (comingSoonEpisodeC s) = []")
  case True
  have "releaseComingSoonEpisodes s = (Inr (), s)"
    using assms(1) True
    by (simp add: releaseComingSoonEpisodes_def releaseComingSoonEpisodesBody_def tryCatch_def
        bindE_def newDate_def await_nofault ComingSoonEpisode_findDue_def ret_def)
  then show ?thesis using assms(1) True by (simp add: quiet_refl)
next
  case False
  let ?due = "filter (episodeDue (clock s)) (comingSoonEpisodeC s)"
  let ?s0 = "logged LOG (FoundEpisodes (length ?due)) s"
  have f0: "faults ?s0 = []" using assms(1) by (simp add: logged_simps)
  have d0: "distinct (map ce_id (comingSoonEpisodeC ?s0))" using assms(2) by (simp add: logged_simps)
  from episodesLoop_nofault[OF f0 d0, of ?due "[]" "[]"] obtain released' s1 where
    run: "episodesLoop ?due ([], []) ?s0 = ((released', []), s1)"
    and f: "faults s1 = []" and c: "clock s1 = clock ?s0"
    and k: "comingSoonSeriesC s1 = comingSoonSeriesC ?s0" "seriesC s1 = seriesC ?s0"
      "seriesTransferLogC s1 = seriesTransferLogC ?s0"
    and n: "nextObjectId ?s0 \<le> nextObjectId s1" and q: "quiet ?s0 s1"
    and p: "prefix (episodeC ?s0) (episodeC s1)"
    and C: "comingSoonEpisodeC s1 =
         filter (\<lambda>e. ce_id e \<notin> ce_id ` set (filter (\<lambda>d. resolved (seriesTransferLogC ?s0) d \<noteq> None) ?due))
           (comingSoonEpisodeC ?s0)"
    and h: "\<forall>d\<in>set ?due. \<forall>sid. resolved (seriesTransferLogC ?s0) d = Some sid \<longrightarrow>
           (\<exists>e\<in>set (episodeC s1). e_seriesId e = sid \<and> e_episode e = ce_episode d)"
    and z: "(\<forall>d\<in>set ?due. resolved (seriesTransferLogC ?s0) d = None) \<longrightarrow>
           episodeC s1 = episodeC ?s0 \<and> nextObjectId s1 = nextObjectId ?s0"
    by blast
  let ?s' = "episodesSummary (released', []) s1"
  have body: "releaseComingSoonEpisodesBody s = (Inr (), ?s')"
    using assms(1) False run
    by (simp add: releaseComingSoonEpisodesBody_def bindE_def newDate_def await_nofault
        ComingSoonEpisode_findDue_def consoleLine_def)
  then have r: "releaseComingSoonEpisodes s = (Inr (), ?s')"
    by (simp add: releaseComingSoonEpisodes_def tryCatch_def)
  have q': "quiet s ?s'"
    using quiet_trans[OF quiet_logged[of LOG s "FoundEpisodes (length ?due)"]
        quiet_trans[OF q quiet_episodesSummary[of s1 released']]] by simp
  show ?thesis
    using r f c k n q' p C h z
    by (simp add: episodesSummary_simps logged_simps)
qed

lemma releaseSeriesEpisodes_nofault:
  assumes "faults s = []" "distinct (map ce_id (comingSoonEpisodeC s))"
  shows "\<exists>s'. releaseSeriesEpisodes cs ns s = (Inr (), s')
     \<and> comingSoonEpisodeC s' =
          filter (\<lambda>x. ce_id x \<notin> ce_id ` set (filter (ofSeries (s_id ns) (cs_id cs)) (comingSoonEpisodeC s)))
            (comingSoonEpisodeC s)
     \<and> (\<forall>ep\<in>set (filter (ofSeries (s_id ns) (cs_id cs)) (comingSoonEpisodeC s)).
           \<exists>e\<in>set (episodeC s'). e_seriesId e = s_id ns \<and> e_episode e = ce_episode ep)
     \<and> quiet s s'"
proof -
  let ?eps = "filter (ofSeries (s_id ns) (cs_id cs)) (comingSoonEpisodeC s)"
  let ?s2 = "logged LOG (ReleasedSeries (s_title ns) (s_id ns)) s"
  have f2: "faults ?s2 = []" using assms(1) by (simp add: logged_simps)
  have find2: "await (ComingSoonEpisode_findOfSeries (s_id ns) (cs_id cs)) ?s2 = (Inr ?eps, ?s2)"
    using f2 by (simp add: await_nofault ComingSoonEpisode_findOfSeries_def logged_simps)
  show ?thesis
  proof (cases "?eps = []")
    case True
    have "releaseSeriesEpisodes cs ns s = (Inr (), ?s2)"
      using find2 True by (simp add: releaseSeriesEpisodes_def bindE_def consoleLine_def ret_def)
    then show ?thesis using True by (simp add: logged_simps quiet_logged)
  next
    case False
    let ?s3 = "logged LOG (ReleasingEpisodesForSeries (length ?eps) (s_title ns)) ?s2"
    have f3: "faults ?s3 = []" using f2 by (simp add: logged_simps)
    from releaseEpisodesOfSeries_nofault[OF f3, of ns ?eps] obtain s' where
      r: "releaseEpisodesOfSeries ns ?eps ?s3 = (Inr (), s')"
      and d: "comingSoonEpisodeC s' = fold (\<lambda>ep. deleteFirst (\<lambda>e. ce_id e = ce_id ep)) ?eps (comingSoonEpisodeC ?s3)"
      and h: "\<forall>ep\<in>set ?eps. \<exists>e\<in>set (episodeC s'). e_seriesId e = s_id ns \<and> e_episode e = ce_episode ep"
      and q: "quiet ?s3 s'"
      by blast
    have run: "releaseSeriesEpisodes cs ns s = (Inr (), s')"
      using find2 False r by (simp add: releaseSeriesEpisodes_def bindE_def consoleLine_def)
    have "quiet s ?s3" by (simp add: quiet_def logged_def)
    then have qq: "quiet s s'" using q quiet_trans by blast
    have d': "comingSoonEpisodeC s' = filter (\<lambda>x. ce_id x \<notin> ce_id ` set ?eps) (comingSoonEpisodeC s)"
      using d fold_deleteFirst[OF assms(2), of ?eps] by (simp add: logged_simps)
    show ?thesis using run d' h qq by simp
  qed
qed

lemma releaseSeriesEpisodes_content:
  assumes "faults s = []"
  shows "\<forall>ep\<in>set (filter (ofSeries (s_id ns) (cs_id cs)) (comingSoonEpisodeC s)).
     \<exists>e\<in>set (episodeC (snd (releaseSeriesEpisodes cs ns s))).
        e_seriesId e = s_id ns \<and> e_episode e = ce_episode ep
        \<and> (e \<in> set (episodeC s)
             \<or> (\<exists>i. \<exists>ep'\<in>set (filter (ofSeries (s_id ns) (cs_id cs)) (comingSoonEpisodeC s)).
                   ce_episode ep' = ce_episode ep \<and> e = newEpisodeOf i (s_id ns) ep'))"
proof -
  let ?eps = "filter (ofSeries (s_id ns) (cs_id cs)) (comingSoonEpisodeC s)"
  let ?s2 = "logged LOG (ReleasedSeries (s_title ns) (s_id ns)) s"
  let ?s3 = "logged LOG (ReleasingEpisodesForSeries (length ?eps) (s_title ns)) ?s2"
  have f2: "faults ?s2 = []" using assms(1) by (simp add: logged_simps)
  have f3: "faults ?s3 = []" using f2 by (simp add: logged_simps)
  have find2: "await (ComingSoonEpisode_findOfSeries (s_id ns) (cs_id cs)) ?s2 = (Inr ?eps, ?s2)"
    using f2 by (simp add: await_nofault ComingSoonEpisode_findOfSeries_def logged_simps)
  show ?thesis
  proof (cases "?eps = []")
    case True
    then show ?thesis by simp
  next
    case False
    have run: "releaseSeriesEpisodes cs ns s = releaseEpisodesOfSeries ns ?eps ?s3"
      using find2 False by (simp add: releaseSeriesEpisodes_def bindE_def consoleLine_def)
    from releaseEpisodesOfSeries_content[OF f3, of ?eps ns] show ?thesis
      by (simp add: run logged_simps)
  qed
qed

lemma uniquePendingD:
  assumes "uniquePending s" "x \<in> set (comingSoonEpisodeC s)" "y \<in> set (comingSoonEpisodeC s)"
    and "ce_comingSoonSeriesId x = Some c" "ce_comingSoonSeriesId y = Some c"
    and "ce_episode x = ce_episode y"
  shows "x = y"
proof -
  let ?P = "\<lambda>e. ce_comingSoonSeriesId e \<noteq> None"
  let ?k = "\<lambda>e. (ce_comingSoonSeriesId e, ce_episode e)"
  have "inj_on ?k (set (filter ?P (comingSoonEpisodeC s)))"
    using assms(1) by (simp add: uniquePending_def distinct_map)
  moreover have "x \<in> set (filter ?P (comingSoonEpisodeC s))" "y \<in> set (filter ?P (comingSoonEpisodeC s))"
    using assms(2,3,4,5) by simp_all
  moreover have "?k x = ?k y" using assms(4,5,6) by simp
  ultimately show ?thesis by (meson inj_onD)
qed

lemma copiesEpisodeFields_newEpisodeOf: "copiesEpisodeFields pe sid (newEpisodeOf i sid pe)"
  by (simp add: copiesEpisodeFields_def newEpisodeOf_def orZero_def orEmpty_def)

lemma sameData_refl: "sameData s s"
  by (simp add: sameData_def)

lemma find_Some_holds: "find P xs = Some x \<Longrightarrow> P x \<and> x \<in> set xs"
  by (induction xs) (auto split: if_splits)





lemma resolve_persists_then_fails:
  assumes "ce_seriesId ce = None" "ce_comingSoonSeriesId ce = Some csid"
    and "find (\<lambda>l. tl_comingSoonSeriesId l = csid) (seriesTransferLogC s) = Some l"
    and "faults s = None # None # Some e # fs"
  shows "releaseEpisode ce s =
     (Inl e,
      s\<lparr>faults := fs,
        comingSoonEpisodeC :=
          updateFirst (\<lambda>x. ce_id x = ce_id ce) (\<lambda>x. x\<lparr>ce_seriesId := Some (tl_seriesId l)\<rparr>)
            (comingSoonEpisodeC s),
        console := console s @ [(LOG, ResolvedSeriesId (tl_seriesId l) (ce_id ce))]\<rparr>)"
  using assms
  by (simp add: releaseEpisode_def resolveFinalSeriesId_def materializeEpisode_def io_defs op_defs
      await_def)

lemma releaseEpisodesOfSeries_total:
  "\<exists>s'. releaseEpisodesOfSeries ns eps s = (Inr (), s')"
proof (induction eps arbitrary: s)
  case Nil
  show ?case by (simp add: ret_def)
next
  case (Cons ep eps)
  obtain r s1 where b: "releaseEpisodeOfSeries ns ep s = (r, s1)"
    by (cases "releaseEpisodeOfSeries ns ep s")
  show ?case
  proof (cases r)
    case (Inl e)
    with b Cons.IH[of "logged ERROR (ErrorReleasingEpisodeForSeries (ce_id ep) (s_title ns) (err_message e)) s1"]
    show ?thesis by (simp add: bindE_def tryCatch_def consoleLine_def)
  next
    case (Inr u)
    with b Cons.IH[of s1] show ?thesis by (simp add: bindE_def tryCatch_def)
  qed
qed

lemma releaseSeriesCore_Inl:
  assumes "releaseSeriesCore cs s = (Inl e, s1)"
  shows "comingSoonSeriesC s1 = comingSoonSeriesC s
       \<or> comingSoonSeriesC s1 =
           updateFirst (\<lambda>c. cs_id c = cs_id cs) (\<lambda>c. c\<lparr>cs_status := Released\<rparr>) (comingSoonSeriesC s)"
  using assms
  by (auto simp: releaseSeriesCore_def io_defs op_defs await_def split: list.splits option.splits)

lemma releaseSeriesCore_Inr:
  assumes "releaseSeriesCore cs s = (Inr ns, s1)"
  shows "comingSoonSeriesC s1 = deleteFirst (\<lambda>c. cs_id c = cs_id cs) (comingSoonSeriesC s)"
  using assms
  by (auto simp: releaseSeriesCore_def io_defs op_defs await_def deleteFirst_updateFirst
      split: list.splits option.splits)

lemma episodeWrites_sameSeries: "episodeWrites (\<lambda>s. comingSoonSeriesC s = X)"
  unfolding episodeWrites_def ignoresEnv_def preserves_def
  by (auto simp: op_defs newObjectId_def)

lemma releaseSeries_Inl:
  assumes "releaseSeries cs released s = (Inl e, released', s1)"
  shows "comingSoonSeriesC s1 = comingSoonSeriesC s
       \<or> comingSoonSeriesC s1 =
           updateFirst (\<lambda>c. cs_id c = cs_id cs) (\<lambda>c. c\<lparr>cs_status := Released\<rparr>) (comingSoonSeriesC s)
       \<or> comingSoonSeriesC s1 = deleteFirst (\<lambda>c. cs_id c = cs_id cs) (comingSoonSeriesC s)"
proof (cases "releaseSeriesCore cs s")
  case (Pair r s0)
  show ?thesis
  proof (cases r)
    case (Inl e0)
    with Pair assms have "s1 = s0" by (simp add: releaseSeries_def)
    with Pair Inl releaseSeriesCore_Inl[of cs s e0 s0] show ?thesis by blast
  next
    case (Inr ns)
    with Pair have del: "comingSoonSeriesC s0 = deleteFirst (\<lambda>c. cs_id c = cs_id cs) (comingSoonSeriesC s)"
      by (simp add: releaseSeriesCore_Inr)
    have "preserves (\<lambda>t. comingSoonSeriesC t = comingSoonSeriesC s0) (releaseSeriesEpisodes cs ns)"
      by (rule preserves_releaseSeriesEpisodes[OF episodeWrites_sameSeries])
    then have "comingSoonSeriesC (snd (releaseSeriesEpisodes cs ns s0)) = comingSoonSeriesC s0"
      by (simp add: preserves_def)
    moreover have "s1 = snd (releaseSeriesEpisodes cs ns s0)"
      using Pair Inr assms by (cases "releaseSeriesEpisodes cs ns s0") (simp add: releaseSeries_def)
    ultimately show ?thesis using del by simp
  qed
qed

lemma resolveFinalSeriesId_Inl:
  assumes "resolveFinalSeriesId ce s = (Inl e, s1)"
  shows "comingSoonEpisodeC s1 = comingSoonEpisodeC s"
  using assms
  by (auto simp: resolveFinalSeriesId_def io_defs op_defs await_def
      split: list.splits option.splits)

lemma resolveFinalSeriesId_Inr:
  assumes "resolveFinalSeriesId ce s = (Inr r, s1)"
  shows "comingSoonEpisodeC s1 = comingSoonEpisodeC s
       \<or> (\<exists>sid. comingSoonEpisodeC s1 =
            updateFirst (\<lambda>x. ce_id x = ce_id ce) (\<lambda>x. x\<lparr>ce_seriesId := Some sid\<rparr>) (comingSoonEpisodeC s))"
  using assms
  by (auto simp: resolveFinalSeriesId_def io_defs op_defs await_def
      split: list.splits option.splits)

lemma materializeEpisode_Inl:
  assumes "materializeEpisode ce sid s = (Inl e, s1)"
  shows "comingSoonEpisodeC s1 = comingSoonEpisodeC s
       \<or> comingSoonEpisodeC s1 =
           updateFirst (\<lambda>x. ce_id x = ce_id ce) (\<lambda>x. x\<lparr>ce_status := Released\<rparr>) (comingSoonEpisodeC s)"
  using assms
  by (auto simp: materializeEpisode_def io_defs op_defs await_def
      split: list.splits option.splits if_splits)

lemma releaseEpisode_Inl:
  assumes "releaseEpisode ce s = (Inl e, s1)"
  shows "\<exists>X. (X = comingSoonEpisodeC s
            \<or> (\<exists>sid. X = updateFirst (\<lambda>x. ce_id x = ce_id ce) (\<lambda>x. x\<lparr>ce_seriesId := Some sid\<rparr>)
                        (comingSoonEpisodeC s)))
          \<and> (comingSoonEpisodeC s1 = X
               \<or> comingSoonEpisodeC s1 =
                   updateFirst (\<lambda>x. ce_id x = ce_id ce) (\<lambda>x. x\<lparr>ce_status := Released\<rparr>) X)"
proof (cases "resolveFinalSeriesId ce s")
  case (Pair r s0)
  show ?thesis
  proof (cases r)
    case (Inl e0)
    with Pair assms have "s1 = s0" by (simp add: releaseEpisode_def bindE_def)
    with Pair Inl resolveFinalSeriesId_Inl[of ce s e0 s0] show ?thesis by blast
  next
    case (Inr res)
    from Pair Inr have X: "comingSoonEpisodeC s0 = comingSoonEpisodeC s
       \<or> (\<exists>sid. comingSoonEpisodeC s0 =
            updateFirst (\<lambda>x. ce_id x = ce_id ce) (\<lambda>x. x\<lparr>ce_seriesId := Some sid\<rparr>) (comingSoonEpisodeC s))"
      by (simp add: resolveFinalSeriesId_Inr)
    show ?thesis
    proof (cases res)
      case None
      with Pair Inr assms show ?thesis by (simp add: releaseEpisode_def bindE_def ret_def)
    next
      case (Some sid)
      with Pair Inr assms have "materializeEpisode ce sid s0 = (Inl e, s1)"
        by (simp add: releaseEpisode_def bindE_def)
      from materializeEpisode_Inl[OF this] X show ?thesis by blast
    qed
  qed
qed

lemma others_after_updateFirst:
  "r \<in> set xs \<Longrightarrow> k r \<noteq> i \<Longrightarrow> r \<in> set (updateFirst (\<lambda>x. k x = i) f xs)"
  by (rule in_updateFirst) simp_all

lemma others_after_deleteFirst:
  "r \<in> set xs \<Longrightarrow> k r \<noteq> i \<Longrightarrow> r \<in> set (deleteFirst (\<lambda>x. k x = i) xs)"
  by (rule in_deleteFirst) simp_all

lemma releaseSeries_Inl_others:
  assumes "releaseSeries cs released s = (Inl e, released', s1)"
    and "r \<in> set (comingSoonSeriesC s)" "cs_id r \<noteq> cs_id cs"
  shows "r \<in> set (comingSoonSeriesC s1)"
  using releaseSeries_Inl[OF assms(1)] assms(2,3)
  by (auto intro: others_after_updateFirst others_after_deleteFirst)

lemma releaseEpisode_Inl_others:
  assumes "releaseEpisode ce s = (Inl e, s1)"
    and "r \<in> set (comingSoonEpisodeC s)" "ce_id r \<noteq> ce_id ce"
  shows "r \<in> set (comingSoonEpisodeC s1)"
proof -
  from releaseEpisode_Inl[OF assms(1)] obtain X where
    X: "X = comingSoonEpisodeC s
            \<or> (\<exists>sid. X = updateFirst (\<lambda>x. ce_id x = ce_id ce) (\<lambda>x. x\<lparr>ce_seriesId := Some sid\<rparr>)
                        (comingSoonEpisodeC s))"
    and s1: "comingSoonEpisodeC s1 = X
               \<or> comingSoonEpisodeC s1 =
                   updateFirst (\<lambda>x. ce_id x = ce_id ce) (\<lambda>x. x\<lparr>ce_status := Released\<rparr>) X"
    by blast
  from X assms(2,3) have "r \<in> set X" by (auto intro: others_after_updateFirst)
  with s1 assms(3) show ?thesis by (auto intro: others_after_updateFirst)
qed

lemma releaseSeriesCore_Inl_done:
  assumes "releaseSeriesCore cs s = (Inl e, s1)"
  shows "(comingSoonSeriesC s1 = comingSoonSeriesC s
          \<and> (comingSoonEpisodeC s1 = comingSoonEpisodeC s
               \<or> comingSoonEpisodeC s1 =
                   map (relinked (cs_id cs) (nextObjectId s)) (comingSoonEpisodeC s)))
       \<or> (comingSoonSeriesC s1 =
             updateFirst (\<lambda>c. cs_id c = cs_id cs) (\<lambda>c. c\<lparr>cs_status := Released\<rparr>) (comingSoonSeriesC s)
           \<and> coreDone cs s s1)"
  using assms
  by (auto simp: releaseSeriesCore_def io_defs op_defs await_def coreDone_def
      split: list.splits option.splits)

lemma releaseSeriesCore_Inr_done:
  assumes "releaseSeriesCore cs s = (Inr ns, s1)"
  shows "coreDone cs s s1"
  using assms
  by (auto simp: releaseSeriesCore_def io_defs op_defs await_def coreDone_def
      split: list.splits option.splits)

lemma releaseSeriesEpisodes_Inl_same:
  assumes "releaseSeriesEpisodes cs ns s = (Inl e, s1)"
  shows "comingSoonEpisodeC s1 = comingSoonEpisodeC s \<and> seriesC s1 = seriesC s
     \<and> seriesTransferLogC s1 = seriesTransferLogC s \<and> episodeC s1 = episodeC s"
proof -
  let ?s2 = "logged LOG (ReleasedSeries (s_title ns) (s_id ns)) s"
  obtain r s3 where f: "await (ComingSoonEpisode_findOfSeries (s_id ns) (cs_id cs)) ?s2 = (r, s3)"
    by (cases "await (ComingSoonEpisode_findOfSeries (s_id ns) (cs_id cs)) ?s2")
  then have same: "comingSoonEpisodeC s3 = comingSoonEpisodeC s \<and> seriesC s3 = seriesC s
     \<and> seriesTransferLogC s3 = seriesTransferLogC s \<and> episodeC s3 = episodeC s"
    by (auto simp: await_def ComingSoonEpisode_findOfSeries_def logged_def
        split: list.splits option.splits)
  show ?thesis
  proof (cases r)
    case (Inl e0)
    with f assms have "s1 = s3"
      by (simp add: releaseSeriesEpisodes_def bindE_def consoleLine_def logged_def)
    with same show ?thesis by simp
  next
    case (Inr eps)
    obtain s4 where "releaseEpisodesOfSeries ns eps
        (logged LOG (ReleasingEpisodesForSeries (length eps) (s_title ns)) s3) = (Inr (), s4)"
      using releaseEpisodesOfSeries_total by blast
    with f Inr assms show ?thesis
      by (simp add: releaseSeriesEpisodes_def bindE_def consoleLine_def logged_def ret_def
          split: if_splits)
  qed
qed

lemma releaseSeries_Inl_done:
  assumes "releaseSeries cs released s = (Inl e, released', s1)"
  shows "(comingSoonSeriesC s1 = comingSoonSeriesC s
          \<and> (comingSoonEpisodeC s1 = comingSoonEpisodeC s
               \<or> comingSoonEpisodeC s1 =
                   map (relinked (cs_id cs) (nextObjectId s)) (comingSoonEpisodeC s)))
       \<or> ((comingSoonSeriesC s1 =
              updateFirst (\<lambda>c. cs_id c = cs_id cs) (\<lambda>c. c\<lparr>cs_status := Released\<rparr>) (comingSoonSeriesC s)
            \<or> comingSoonSeriesC s1 = deleteFirst (\<lambda>c. cs_id c = cs_id cs) (comingSoonSeriesC s))
           \<and> coreDone cs s s1)"
proof (cases "releaseSeriesCore cs s")
  case (Pair r s0)
  show ?thesis
  proof (cases r)
    case (Inl e0)
    with Pair assms have "s1 = s0" by (simp add: releaseSeries_def)
    with Pair Inl releaseSeriesCore_Inl_done[of cs s e0 s0] show ?thesis by blast
  next
    case (Inr ns)
    with Pair have del: "comingSoonSeriesC s0 = deleteFirst (\<lambda>c. cs_id c = cs_id cs) (comingSoonSeriesC s)"
      and core: "coreDone cs s s0"
      by (simp_all add: releaseSeriesCore_Inr releaseSeriesCore_Inr_done)
    have "preserves (\<lambda>t. comingSoonSeriesC t = comingSoonSeriesC s0) (releaseSeriesEpisodes cs ns)"
      by (rule preserves_releaseSeriesEpisodes[OF episodeWrites_sameSeries])
    then have a: "comingSoonSeriesC (snd (releaseSeriesEpisodes cs ns s0)) = comingSoonSeriesC s0"
      by (simp add: preserves_def)
    have b: "releaseSeriesEpisodes cs ns s0 = (Inl e, s1)"
      using Pair Inr assms by (cases "releaseSeriesEpisodes cs ns s0") (simp add: releaseSeries_def)
    from releaseSeriesEpisodes_Inl_same[OF b] core have "coreDone cs s s1"
      by (simp add: coreDone_def)
    with a b del show ?thesis by simp
  qed
qed

lemma materializeEpisode_Inl_live:
  assumes "materializeEpisode ce sid s = (Inl e, s1)"
  shows "comingSoonEpisodeC s1 = comingSoonEpisodeC s
       \<or> (comingSoonEpisodeC s1 =
             updateFirst (\<lambda>x. ce_id x = ce_id ce) (\<lambda>x. x\<lparr>ce_status := Released\<rparr>) (comingSoonEpisodeC s)
           \<and> (\<exists>x\<in>set (episodeC s1). e_seriesId x = sid \<and> e_episode x = ce_episode ce))"
proof -
  have f: "\<exists>x\<in>set (episodeC s). e_seriesId x = sid \<and> e_episode x = ce_episode ce"
    if "find (\<lambda>e. e_seriesId e = sid \<and> e_episode e = ce_episode ce) (episodeC s) = Some y" for y
    using find_Some_holds[OF that] by blast
  from assms show ?thesis
    by (auto simp: materializeEpisode_def io_defs op_defs await_def newEpisodeOf_def
        split: list.splits option.splits if_splits dest: f)
qed

lemma resolveFinalSeriesId_Inr_Some:
  assumes "resolveFinalSeriesId ce s = (Inr (Some sid), s1)"
  shows "(ce_seriesId ce = Some sid \<and> comingSoonEpisodeC s1 = comingSoonEpisodeC s)
       \<or> comingSoonEpisodeC s1 =
            updateFirst (\<lambda>x. ce_id x = ce_id ce) (\<lambda>x. x\<lparr>ce_seriesId := Some sid\<rparr>) (comingSoonEpisodeC s)"
  using assms
  by (auto simp: resolveFinalSeriesId_def io_defs op_defs await_def
      split: list.splits option.splits)


lemma releaseEpisode_Inl_live:
  assumes "releaseEpisode ce s = (Inl e, s1)"
  shows "(comingSoonEpisodeC s1 = comingSoonEpisodeC s
          \<or> (\<exists>sid. comingSoonEpisodeC s1 =
                 updateFirst (\<lambda>x. ce_id x = ce_id ce) (\<lambda>x. x\<lparr>ce_seriesId := Some sid\<rparr>)
                   (comingSoonEpisodeC s)))
       \<or> (\<exists>sid X. ((ce_seriesId ce = Some sid \<and> X = comingSoonEpisodeC s)
                     \<or> X = updateFirst (\<lambda>x. ce_id x = ce_id ce) (\<lambda>x. x\<lparr>ce_seriesId := Some sid\<rparr>)
                           (comingSoonEpisodeC s))
                \<and> comingSoonEpisodeC s1 =
                    updateFirst (\<lambda>x. ce_id x = ce_id ce) (\<lambda>x. x\<lparr>ce_status := Released\<rparr>) X
                \<and> (\<exists>x\<in>set (episodeC s1). e_seriesId x = sid \<and> e_episode x = ce_episode ce))"
proof (cases "resolveFinalSeriesId ce s")
  case (Pair r s0)
  show ?thesis
  proof (cases r)
    case (Inl e0)
    with Pair assms have "s1 = s0" by (simp add: releaseEpisode_def bindE_def)
    with Pair Inl resolveFinalSeriesId_Inl[of ce s e0 s0] show ?thesis by blast
  next
    case (Inr res)
    show ?thesis
    proof (cases res)
      case None
      with Pair Inr assms show ?thesis by (simp add: releaseEpisode_def bindE_def ret_def)
    next
      case (Some sid)
      with Pair Inr have X: "(ce_seriesId ce = Some sid \<and> comingSoonEpisodeC s0 = comingSoonEpisodeC s)
         \<or> comingSoonEpisodeC s0 =
              updateFirst (\<lambda>x. ce_id x = ce_id ce) (\<lambda>x. x\<lparr>ce_seriesId := Some sid\<rparr>) (comingSoonEpisodeC s)"
        by (simp add: resolveFinalSeriesId_Inr_Some)
      from Some Pair Inr assms have "materializeEpisode ce sid s0 = (Inl e, s1)"
        by (simp add: releaseEpisode_def bindE_def)
      from materializeEpisode_Inl_live[OF this] have
        "comingSoonEpisodeC s1 = comingSoonEpisodeC s0
         \<or> (comingSoonEpisodeC s1 =
               updateFirst (\<lambda>x. ce_id x = ce_id ce) (\<lambda>x. x\<lparr>ce_status := Released\<rparr>) (comingSoonEpisodeC s0)
             \<and> (\<exists>x\<in>set (episodeC s1). e_seriesId x = sid \<and> e_episode x = ce_episode ce))" .
      then show ?thesis
      proof
        assume "comingSoonEpisodeC s1 = comingSoonEpisodeC s0"
        with X show ?thesis by auto
      next
        assume m: "comingSoonEpisodeC s1 =
               updateFirst (\<lambda>x. ce_id x = ce_id ce) (\<lambda>x. x\<lparr>ce_status := Released\<rparr>) (comingSoonEpisodeC s0)
             \<and> (\<exists>x\<in>set (episodeC s1). e_seriesId x = sid \<and> e_episode x = ce_episode ce)"
        have "\<exists>sid X. ((ce_seriesId ce = Some sid \<and> X = comingSoonEpisodeC s)
                     \<or> X = updateFirst (\<lambda>x. ce_id x = ce_id ce) (\<lambda>x. x\<lparr>ce_seriesId := Some sid\<rparr>)
                           (comingSoonEpisodeC s))
                \<and> comingSoonEpisodeC s1 =
                    updateFirst (\<lambda>x. ce_id x = ce_id ce) (\<lambda>x. x\<lparr>ce_status := Released\<rparr>) X
                \<and> (\<exists>x\<in>set (episodeC s1). e_seriesId x = sid \<and> e_episode x = ce_episode ce)"
          using X m by (intro exI[of _ sid] exI[of _ "comingSoonEpisodeC s0"]) blast
        then show ?thesis ..
      qed
    qed
  qed
qed

lemma releaseSeries_Inl_other_episodes:
  assumes "releaseSeries cs released s = (Inl e, released', s1)"
    and "r \<in> set (comingSoonEpisodeC s)" "ce_comingSoonSeriesId r \<noteq> Some (cs_id cs)"
  shows "r \<in> set (comingSoonEpisodeC s1)"
proof -
  have "relinked (cs_id cs) (nextObjectId s) r = r" using assms(3) by (simp add: relinked_def)
  then have "r \<in> set (map (relinked (cs_id cs) (nextObjectId s)) (comingSoonEpisodeC s))"
    using assms(2) by force
  with releaseSeries_Inl_done[OF assms(1)] assms(2) show ?thesis by (auto simp: coreDone_def)
qed

lemma releaseEpisode_sameSeries: "comingSoonSeriesC (snd (releaseEpisode ce s)) = comingSoonSeriesC s"
proof -
  have "preserves (\<lambda>t. comingSoonSeriesC t = comingSoonSeriesC s) (releaseEpisode ce)"
    by (rule preserves_releaseEpisode[OF episodeWrites_sameSeries])
  then show ?thesis by (simp add: preserves_def)
qed

lemma grows_releaseSeries: "grows s (snd (snd (releaseSeries cs released s)))"
  by (rule releaseSeries_preserves[OF seriesWrites_grows grows_refl])

lemma grows_releaseEpisode: "grows s (snd (releaseEpisode ce s))"
  by (rule preservesD[OF preserves_releaseEpisode[OF episodeWrites_grows] grows_refl])

lemma ignoresEnv_grows: "ignoresEnv (grows s0)"
  using episodeWrites_grows[of s0] by (simp add: episodeWrites_def)

lemma grows_releaseComingSoonSeries: "grows s (snd (releaseComingSoonSeries s))"
  by (rule releaseComingSoonSeries_preserves) (simp_all add: seriesWrites_grows ignoresEnv_grows grows_refl)

lemma grows_releaseComingSoonEpisodes: "grows s (snd (releaseComingSoonEpisodes s))"
  by (rule preservesD[OF preserves_releaseComingSoonEpisodes[OF episodeWrites_grows] grows_refl])

lemmas run_defs =
  releaseComingSoonSeries_def releaseComingSoonSeriesBody_def releaseComingSoonEpisodes_def
  releaseComingSoonEpisodesBody_def tryCatch_def io_defs op_defs await_def seriesDue_def
  episodeDue_def releaseSeries_def releaseSeriesCore_def releaseSeriesEpisodes_def
  releaseEpisodeOfSeries_def releaseEpisode_def resolveFinalSeriesId_def materializeEpisode_def
  newSeriesOf_def newEpisodeOf_def orZero_def orEmpty_def relinked_def ofSeries_def
  seriesSummary_def episodesSummary_def duplicateKey_def

lemma series_promoted_each:
  assumes "faults s = []" and "wf s"
  shows "\<forall>d\<in>set (filter (seriesDue (clock s)) (comingSoonSeriesC s)).
      (\<forall>c\<in>set (comingSoonSeriesC (snd (releaseComingSoonSeries s))). cs_id c \<noteq> cs_id d)
      \<and> (\<exists>l n. filter (\<lambda>l. tl_comingSoonSeriesId l = cs_id d)
                  (drop (length (seriesTransferLogC s))
                     (seriesTransferLogC (snd (releaseComingSoonSeries s)))) = [l]
            \<and> take (length (seriesTransferLogC s))
                 (seriesTransferLogC (snd (releaseComingSoonSeries s))) = seriesTransferLogC s
            \<and> filter (\<lambda>n. s_id n = tl_seriesId l) (seriesC (snd (releaseComingSoonSeries s))) = [n]
            \<and> copiesAllFields d n)"
proof
  fix d
  let ?due = "filter (seriesDue (clock s)) (comingSoonSeriesC s)"
  assume d: "d \<in> set ?due"
  from releaseComingSoonSeries_nofault[OF assms] obtain s' newlogs where
    r: "releaseComingSoonSeries s = (Inr (), s')" and w: "wf s'"
    and a: "comingSoonSeriesC s' = filter (\<lambda>c. cs_id c \<notin> cs_id ` set ?due) (comingSoonSeriesC s)"
    and t: "seriesTransferLogC s' = seriesTransferLogC s @ newlogs"
    and p: "list_all2 (promotedAs s s') ?due newlogs"
    by blast
  have s': "snd (releaseComingSoonSeries s) = s'" using r by simp
  have 1: "\<forall>c\<in>set (comingSoonSeriesC s'). cs_id c \<noteq> cs_id d"
  proof
    fix c assume "c \<in> set (comingSoonSeriesC s')"
    then have "cs_id c \<notin> cs_id ` set ?due" unfolding a by simp
    moreover have "cs_id d \<in> cs_id ` set ?due" using d by (rule imageI)
    ultimately show "cs_id c \<noteq> cs_id d" by metis
  qed
  have keys: "map tl_comingSoonSeriesId newlogs = map cs_id ?due"
    using p by (induction rule: list_all2_induct) (simp_all add: promotedAs_def)
  have dd: "distinct (map tl_comingSoonSeriesId newlogs)"
    unfolding keys using assms(2) by (simp add: wf_def distinct_map_filter)
  from d obtain i where i: "i < length ?due" "?due ! i = d"
    by (meson in_set_conv_nth)
  with p have "i < length newlogs" "promotedAs s s' d (newlogs ! i)"
    by (auto simp: list_all2_conv_all_nth)
  then obtain l where l: "l \<in> set newlogs" "promotedAs s s' d l"
    using nth_mem by blast
  have csid: "tl_comingSoonSeriesId l = cs_id d" using l(2) by (simp add: promotedAs_def)
  have 2: "filter (\<lambda>l. tl_comingSoonSeriesId l = cs_id d) newlogs = [l]"
    using filter_key_single[OF dd l(1)] csid by simp
  let ?n = "newSeriesOf (tl_seriesId l) d"
  have nin: "?n \<in> set (seriesC s')" using l(2) by (simp add: promotedAs_def)
  have ds: "distinct (map s_id (seriesC s'))" using w by (simp add: wf_def)
  have sid: "s_id ?n = tl_seriesId l" by (simp add: newSeriesOf_def)
  have 3: "filter (\<lambda>n. s_id n = tl_seriesId l) (seriesC s') = [?n]"
    using filter_key_single[OF ds nin] sid by simp
  show "(\<forall>c\<in>set (comingSoonSeriesC (snd (releaseComingSoonSeries s))). cs_id c \<noteq> cs_id d)
      \<and> (\<exists>l n. filter (\<lambda>l. tl_comingSoonSeriesId l = cs_id d)
                  (drop (length (seriesTransferLogC s))
                     (seriesTransferLogC (snd (releaseComingSoonSeries s)))) = [l]
            \<and> take (length (seriesTransferLogC s))
                 (seriesTransferLogC (snd (releaseComingSoonSeries s))) = seriesTransferLogC s
            \<and> filter (\<lambda>n. s_id n = tl_seriesId l) (seriesC (snd (releaseComingSoonSeries s))) = [n]
            \<and> copiesAllFields d n)"
    unfolding s' using 1 2 3 t copiesAllFields_newSeriesOf[of d "tl_seriesId l"] by auto
qed
subsection \<open>C1: every due series is promoted exactly once\<close>

text \<open>
  Claim C1.  When the store rejects nothing during the run and the identifiers in it are
  unique, one run of \<^verbatim>\<open>releaseComingSoonSeries\<close> handles every coming-soon series that is
  pending and due as follows: no document with its \<^verbatim>\<open>_id\<close> is left in the coming-soon
  collection; exactly one of the transfer-log entries appended by the run (the log is only
  appended to) names it as \<^verbatim>\<open>comingSoonSeriesId\<close>; and exactly one live series carries
  the \<^verbatim>\<open>seriesId\<close> of that entry, with every field copied from the coming-soon series
  except \<^verbatim>\<open>status\<close> and \<^verbatim>\<open>scheduledReleaseDate\<close>, and \<^verbatim>\<open>viewCount\<close> 0.  The run
  adds as many live series and as many transfer-log entries as there are due series.
\<close>

theorem series_promoted_exactly_once:
  assumes "faults s = []" and "wf s"
  shows "length (seriesC (snd (releaseComingSoonSeries s)))
       = length (seriesC s) + length (filter (seriesDue (clock s)) (comingSoonSeriesC s))
     \<and> length (seriesTransferLogC (snd (releaseComingSoonSeries s)))
       = length (seriesTransferLogC s) + length (filter (seriesDue (clock s)) (comingSoonSeriesC s))
     \<and> (\<forall>d\<in>set (filter (seriesDue (clock s)) (comingSoonSeriesC s)).
          (\<forall>c\<in>set (comingSoonSeriesC (snd (releaseComingSoonSeries s))). cs_id c \<noteq> cs_id d)
          \<and> (\<exists>l n. filter (\<lambda>l. tl_comingSoonSeriesId l = cs_id d)
                      (drop (length (seriesTransferLogC s))
                         (seriesTransferLogC (snd (releaseComingSoonSeries s)))) = [l]
                \<and> take (length (seriesTransferLogC s))
                     (seriesTransferLogC (snd (releaseComingSoonSeries s))) = seriesTransferLogC s
                \<and> filter (\<lambda>n. s_id n = tl_seriesId l)
                     (seriesC (snd (releaseComingSoonSeries s))) = [n]
                \<and> copiesAllFields d n))"
proof -
  let ?due = "filter (seriesDue (clock s)) (comingSoonSeriesC s)"
  from releaseComingSoonSeries_nofault[OF assms] obtain s' newlogs where
    r: "releaseComingSoonSeries s = (Inr (), s')"
    and b: "length (seriesC s') = length (seriesC s) + length ?due"
    and t: "seriesTransferLogC s' = seriesTransferLogC s @ newlogs"
    and p: "list_all2 (promotedAs s s') ?due newlogs"
    by blast
  have "length newlogs = length ?due" using p by (simp add: list_all2_lengthD)
  then have c: "length (seriesTransferLogC s') = length (seriesTransferLogC s) + length ?due"
    using t by simp
  from r b c series_promoted_each[OF assms] show ?thesis by simp
qed

theorem series_promoted_exactly_once_witness:
  "faults exampleStore = [] \<and> wf exampleStore
   \<and> seriesX \<in> set (filter (seriesDue (clock exampleStore)) (comingSoonSeriesC exampleStore))
   \<and> length (seriesC (snd (releaseComingSoonSeries exampleStore))) = length (seriesC exampleStore) + 1
   \<and> cs_id seriesX \<notin> cs_id ` set (comingSoonSeriesC (snd (releaseComingSoonSeries exampleStore)))
   \<and> (\<exists>l n. filter (\<lambda>l. tl_comingSoonSeriesId l = cs_id seriesX)
               (drop (length (seriesTransferLogC exampleStore))
                  (seriesTransferLogC (snd (releaseComingSoonSeries exampleStore)))) = [l]
         \<and> take (length (seriesTransferLogC exampleStore))
              (seriesTransferLogC (snd (releaseComingSoonSeries exampleStore)))
            = seriesTransferLogC exampleStore
         \<and> filter (\<lambda>n. s_id n = tl_seriesId l)
              (seriesC (snd (releaseComingSoonSeries exampleStore))) = [n]
         \<and> copiesAllFields seriesX n)"
proof -
  have h1: "faults exampleStore = []"
    by (simp add: exampleStore_def)
  have h2: "wf exampleStore"
    by (simp add: wf_def example_defs)
  have h3: "seriesX \<in> set (filter (seriesDue (clock exampleStore)) (comingSoonSeriesC exampleStore))"
    by (simp add: seriesDue_def example_defs)
  let ?s' = "snd (releaseComingSoonSeries exampleStore)"
  have h4: "length (filter (seriesDue (clock exampleStore)) (comingSoonSeriesC exampleStore)) = 1"
    by (simp add: seriesDue_def example_defs)
  from series_promoted_exactly_once[OF h1 h2] h4
  have len: "length (seriesC ?s') = length (seriesC exampleStore) + 1"
    by simp
  from series_promoted_exactly_once[OF h1 h2] have
    "\<forall>d\<in>set (filter (seriesDue (clock exampleStore)) (comingSoonSeriesC exampleStore)).
          (\<forall>c\<in>set (comingSoonSeriesC ?s'). cs_id c \<noteq> cs_id d)
          \<and> (\<exists>l n. filter (\<lambda>l. tl_comingSoonSeriesId l = cs_id d)
                      (drop (length (seriesTransferLogC exampleStore)) (seriesTransferLogC ?s')) = [l]
                \<and> take (length (seriesTransferLogC exampleStore)) (seriesTransferLogC ?s')
                    = seriesTransferLogC exampleStore
                \<and> filter (\<lambda>n. s_id n = tl_seriesId l) (seriesC ?s') = [n]
                \<and> copiesAllFields d n)"
    by simp
  from this h3 have c:
    "(\<forall>c\<in>set (comingSoonSeriesC ?s'). cs_id c \<noteq> cs_id seriesX)
      \<and> (\<exists>l n. filter (\<lambda>l. tl_comingSoonSeriesId l = cs_id seriesX)
                  (drop (length (seriesTransferLogC exampleStore)) (seriesTransferLogC ?s')) = [l]
            \<and> take (length (seriesTransferLogC exampleStore)) (seriesTransferLogC ?s')
                = seriesTransferLogC exampleStore
            \<and> filter (\<lambda>n. s_id n = tl_seriesId l) (seriesC ?s') = [n]
            \<and> copiesAllFields seriesX n)"
    by (rule bspec)
  then have "\<forall>c\<in>set (comingSoonSeriesC ?s'). cs_id c \<noteq> cs_id seriesX" by (rule conjunct1)
  then have n: "cs_id seriesX \<notin> cs_id ` set (comingSoonSeriesC ?s')" by (metis imageE)
  from h1 h2 h3 len n conjunct2[OF c] show ?thesis by (intro conjI)
qed
subsection \<open>C2: the episodes of a series are released with it\<close>

text \<open>
  Claim C2.  Let the store reject nothing, the identifiers be unique and fresh, and the
  unique index of the coming-soon episodes hold.  For every due coming-soon series, a
  transfer-log entry appended by the same run of \<^verbatim>\<open>releaseComingSoonSeries\<close> names it and
  the live series made from it, and every episode that was pending with that series as
  its \<^verbatim>\<open>comingSoonSeriesId\<close> is gone from coming soon after the run and is a live episode
  of the new series: the live episodes hold the document that \<^verbatim>\<open>new Episode\<close> makes of it
  (lines 259--268), with its number, title, coin cost, counters, video and thumbnail,
  whatever its own \<^verbatim>\<open>scheduledReleaseDate\<close> is (the statement has no condition on it).
  The second part is the inner pass by itself, for both kinds of link: it removes every
  pending episode that points to the series by \<^verbatim>\<open>seriesId\<close> or by
  \<^verbatim>\<open>comingSoonSeriesId\<close> and leaves a live episode of the series with its number; that
  live episode is the copy of the pending one whenever the series had no live episode
  with the number yet and no other pending episode of the series has it.
\<close>

theorem episodes_released_with_series:
  "(faults s = [] \<and> wf s \<and> uniquePending s \<and> liveRefsOld s \<longrightarrow>
      (\<forall>d\<in>set (filter (seriesDue (clock s)) (comingSoonSeriesC s)).
         \<exists>l\<in>set (drop (length (seriesTransferLogC s))
                   (seriesTransferLogC (snd (releaseComingSoonSeries s)))).
           tl_comingSoonSeriesId l = cs_id d
           \<and> newSeriesOf (tl_seriesId l) d \<in> set (seriesC (snd (releaseComingSoonSeries s)))
           \<and> (\<forall>pe\<in>set (comingSoonEpisodeC s).
                 ce_comingSoonSeriesId pe = Some (cs_id d) \<and> ce_status pe = Pending \<longrightarrow>
                   ce_id pe \<notin> ce_id ` set (comingSoonEpisodeC (snd (releaseComingSoonSeries s)))
                   \<and> (\<exists>e\<in>set (episodeC (snd (releaseComingSoonSeries s))).
                         (\<exists>i. e = newEpisodeOf i (tl_seriesId l) pe)
                         \<and> copiesEpisodeFields pe (tl_seriesId l) e))))
   \<and> (faults s1 = [] \<and> distinct (map ce_id (comingSoonEpisodeC s1)) \<longrightarrow>
        fst (releaseSeriesEpisodes cs newSeries s1) = Inr ()
        \<and> (\<forall>pe\<in>set (comingSoonEpisodeC s1).
              (ce_seriesId pe = Some (s_id newSeries) \<or> ce_comingSoonSeriesId pe = Some (cs_id cs))
              \<and> ce_status pe = Pending \<longrightarrow>
                ce_id pe \<notin> ce_id ` set (comingSoonEpisodeC (snd (releaseSeriesEpisodes cs newSeries s1)))
                \<and> (\<exists>e\<in>set (episodeC (snd (releaseSeriesEpisodes cs newSeries s1))).
                      e_seriesId e = s_id newSeries \<and> e_episode e = ce_episode pe)
                \<and> ((\<forall>e\<in>set (episodeC s1).
                       e_seriesId e = s_id newSeries \<longrightarrow> e_episode e \<noteq> ce_episode pe)
                    \<and> (\<forall>x\<in>set (comingSoonEpisodeC s1).
                         ofSeries (s_id newSeries) (cs_id cs) x \<and> ce_episode x = ce_episode pe
                           \<longrightarrow> x = pe)
                    \<longrightarrow> (\<exists>e\<in>set (episodeC (snd (releaseSeriesEpisodes cs newSeries s1))).
                           (\<exists>i. e = newEpisodeOf i (s_id newSeries) pe)
                           \<and> copiesEpisodeFields pe (s_id newSeries) e))))"
proof (intro conjI impI)
  assume a: "faults s = [] \<and> wf s \<and> uniquePending s \<and> liveRefsOld s"
  let ?due = "filter (seriesDue (clock s)) (comingSoonSeriesC s)"
  from a have f: "faults s = []" and w: "wf s" and u: "uniquePending s" and o: "liveRefsOld s"
    by simp_all
  from releaseComingSoonSeries_nofault[OF f w] obtain s' newlogs where
    r: "releaseComingSoonSeries s = (Inr (), s')"
    and t: "seriesTransferLogC s' = seriesTransferLogC s @ newlogs"
    and p: "list_all2 (promotedAs s s') ?due newlogs"
    by blast
  have s': "snd (releaseComingSoonSeries s) = s'" using r by simp
  show "\<forall>d\<in>set ?due.
         \<exists>l\<in>set (drop (length (seriesTransferLogC s))
                   (seriesTransferLogC (snd (releaseComingSoonSeries s)))).
           tl_comingSoonSeriesId l = cs_id d
           \<and> newSeriesOf (tl_seriesId l) d \<in> set (seriesC (snd (releaseComingSoonSeries s)))
           \<and> (\<forall>pe\<in>set (comingSoonEpisodeC s).
                 ce_comingSoonSeriesId pe = Some (cs_id d) \<and> ce_status pe = Pending \<longrightarrow>
                   ce_id pe \<notin> ce_id ` set (comingSoonEpisodeC (snd (releaseComingSoonSeries s)))
                   \<and> (\<exists>e\<in>set (episodeC (snd (releaseComingSoonSeries s))).
                         (\<exists>i. e = newEpisodeOf i (tl_seriesId l) pe)
                         \<and> copiesEpisodeFields pe (tl_seriesId l) e))"
    unfolding s'
  proof
    fix d assume d: "d \<in> set ?due"
    then obtain i where i: "i < length ?due" "?due ! i = d"
      by (meson in_set_conv_nth)
    with p have "i < length newlogs" "promotedAs s s' d (newlogs ! i)"
      by (auto simp: list_all2_conv_all_nth)
    then obtain l where l: "l \<in> set newlogs" "promotedAs s s' d l"
      using nth_mem by blast
    from l(2) have l1: "tl_comingSoonSeriesId l = cs_id d"
      and l2: "nextObjectId s \<le> tl_seriesId l"
      and l3: "newSeriesOf (tl_seriesId l) d \<in> set (seriesC s')"
      by (simp_all add: promotedAs_def)
    have eps: "ce_id pe \<notin> ce_id ` set (comingSoonEpisodeC s')
        \<and> (\<exists>e\<in>set (episodeC s').
              (\<exists>i. e = newEpisodeOf i (tl_seriesId l) pe)
              \<and> copiesEpisodeFields pe (tl_seriesId l) e)"
      if pe: "pe \<in> set (comingSoonEpisodeC s)"
        "ce_comingSoonSeriesId pe = Some (cs_id d) \<and> ce_status pe = Pending" for pe
    proof -
      from l(2) pe have gone: "\<forall>x\<in>set (comingSoonEpisodeC s'). ce_id x \<noteq> ce_id pe"
        unfolding promotedAs_def by blast
      from l(2) pe obtain e where e: "e \<in> set (episodeC s')" "e_seriesId e = tl_seriesId l"
        and or: "e \<in> set (episodeC s)
              \<or> (\<exists>i. \<exists>pe'\<in>set (comingSoonEpisodeC s).
                    ce_comingSoonSeriesId pe' = Some (cs_id d) \<and> ce_status pe' = Pending
                    \<and> ce_episode pe' = ce_episode pe
                    \<and> e = newEpisodeOf i (tl_seriesId l) pe')"
        unfolding promotedAs_def by blast
      have "e \<notin> set (episodeC s)"
      proof
        assume "e \<in> set (episodeC s)"
        with o have "e_seriesId e < nextObjectId s" by (simp add: liveRefsOld_def)
        with e(2) l2 show False by simp
      qed
      with or obtain i pe' where p': "pe' \<in> set (comingSoonEpisodeC s)"
        "ce_comingSoonSeriesId pe' = Some (cs_id d)" "ce_episode pe' = ce_episode pe"
        "e = newEpisodeOf i (tl_seriesId l) pe'"
        by blast
      have "pe' = pe"
        using u p'(1) pe(1) p'(2) conjunct1[OF pe(2)] p'(3) by (rule uniquePendingD)
      with p'(4) have n: "e = newEpisodeOf i (tl_seriesId l) pe" by simp
      then have "copiesEpisodeFields pe (tl_seriesId l) e"
        by (simp add: copiesEpisodeFields_newEpisodeOf)
      with e(1) n have "\<exists>e\<in>set (episodeC s').
              (\<exists>i. e = newEpisodeOf i (tl_seriesId l) pe)
              \<and> copiesEpisodeFields pe (tl_seriesId l) e"
        by blast
      moreover from gone have "ce_id pe \<notin> ce_id ` set (comingSoonEpisodeC s')"
        by (metis imageE)
      ultimately show ?thesis by simp
    qed
    have all: "\<forall>pe\<in>set (comingSoonEpisodeC s).
                 ce_comingSoonSeriesId pe = Some (cs_id d) \<and> ce_status pe = Pending \<longrightarrow>
                   ce_id pe \<notin> ce_id ` set (comingSoonEpisodeC s')
                   \<and> (\<exists>e\<in>set (episodeC s').
                         (\<exists>i. e = newEpisodeOf i (tl_seriesId l) pe)
                         \<and> copiesEpisodeFields pe (tl_seriesId l) e)"
    proof (intro ballI impI)
      fix pe assume "pe \<in> set (comingSoonEpisodeC s)"
        "ce_comingSoonSeriesId pe = Some (cs_id d) \<and> ce_status pe = Pending"
      then show "ce_id pe \<notin> ce_id ` set (comingSoonEpisodeC s')
                   \<and> (\<exists>e\<in>set (episodeC s').
                         (\<exists>i. e = newEpisodeOf i (tl_seriesId l) pe)
                         \<and> copiesEpisodeFields pe (tl_seriesId l) e)"
        by (rule eps)
    qed
    from l(1) t have "l \<in> set (drop (length (seriesTransferLogC s)) (seriesTransferLogC s'))"
      by simp
    then show "\<exists>l\<in>set (drop (length (seriesTransferLogC s)) (seriesTransferLogC s')).
           tl_comingSoonSeriesId l = cs_id d
           \<and> newSeriesOf (tl_seriesId l) d \<in> set (seriesC s')
           \<and> (\<forall>pe\<in>set (comingSoonEpisodeC s).
                 ce_comingSoonSeriesId pe = Some (cs_id d) \<and> ce_status pe = Pending \<longrightarrow>
                   ce_id pe \<notin> ce_id ` set (comingSoonEpisodeC s')
                   \<and> (\<exists>e\<in>set (episodeC s').
                         (\<exists>i. e = newEpisodeOf i (tl_seriesId l) pe)
                         \<and> copiesEpisodeFields pe (tl_seriesId l) e))"
      using l1 l3 all by (intro bexI[of _ l] conjI)
  qed
next
  assume a: "faults s1 = [] \<and> distinct (map ce_id (comingSoonEpisodeC s1))"
  let ?eps = "filter (ofSeries (s_id newSeries) (cs_id cs)) (comingSoonEpisodeC s1)"
  let ?s2 = "snd (releaseSeriesEpisodes cs newSeries s1)"
  from a have f: "faults s1 = []" and dist: "distinct (map ce_id (comingSoonEpisodeC s1))"
    by simp_all
  from releaseSeriesEpisodes_nofault[OF f dist, of cs newSeries] obtain s2 where
    r: "releaseSeriesEpisodes cs newSeries s1 = (Inr (), s2)"
    and c: "comingSoonEpisodeC s2 = filter (\<lambda>x. ce_id x \<notin> ce_id ` set ?eps) (comingSoonEpisodeC s1)"
    by blast
  have s2: "?s2 = s2" using r by simp
  note content = releaseSeriesEpisodes_content[OF f, of newSeries cs]
  show "fst (releaseSeriesEpisodes cs newSeries s1) = Inr ()" using r by simp
  show "\<forall>pe\<in>set (comingSoonEpisodeC s1).
              (ce_seriesId pe = Some (s_id newSeries) \<or> ce_comingSoonSeriesId pe = Some (cs_id cs))
              \<and> ce_status pe = Pending \<longrightarrow>
                ce_id pe \<notin> ce_id ` set (comingSoonEpisodeC ?s2)
                \<and> (\<exists>e\<in>set (episodeC ?s2).
                      e_seriesId e = s_id newSeries \<and> e_episode e = ce_episode pe)
                \<and> ((\<forall>e\<in>set (episodeC s1).
                       e_seriesId e = s_id newSeries \<longrightarrow> e_episode e \<noteq> ce_episode pe)
                    \<and> (\<forall>x\<in>set (comingSoonEpisodeC s1).
                         ofSeries (s_id newSeries) (cs_id cs) x \<and> ce_episode x = ce_episode pe
                           \<longrightarrow> x = pe)
                    \<longrightarrow> (\<exists>e\<in>set (episodeC ?s2).
                           (\<exists>i. e = newEpisodeOf i (s_id newSeries) pe)
                           \<and> copiesEpisodeFields pe (s_id newSeries) e))"
  proof (intro ballI impI conjI)
    fix pe assume pe: "pe \<in> set (comingSoonEpisodeC s1)"
      "(ce_seriesId pe = Some (s_id newSeries) \<or> ce_comingSoonSeriesId pe = Some (cs_id cs))
              \<and> ce_status pe = Pending"
    then have in_eps: "pe \<in> set ?eps" by (simp add: ofSeries_def)
    then have "ce_id pe \<in> ce_id ` set ?eps" by (rule imageI)
    then show "ce_id pe \<notin> ce_id ` set (comingSoonEpisodeC ?s2)"
      unfolding s2 c by auto
    from bspec[OF content in_eps] obtain e where e: "e \<in> set (episodeC ?s2)"
      "e_seriesId e = s_id newSeries" "e_episode e = ce_episode pe"
      and or: "e \<in> set (episodeC s1)
             \<or> (\<exists>i. \<exists>ep'\<in>set ?eps. ce_episode ep' = ce_episode pe
                    \<and> e = newEpisodeOf i (s_id newSeries) ep')"
      by blast
    from e show "\<exists>e\<in>set (episodeC ?s2). e_seriesId e = s_id newSeries \<and> e_episode e = ce_episode pe"
      by blast
    assume only: "(\<forall>e\<in>set (episodeC s1).
                       e_seriesId e = s_id newSeries \<longrightarrow> e_episode e \<noteq> ce_episode pe)
                    \<and> (\<forall>x\<in>set (comingSoonEpisodeC s1).
                         ofSeries (s_id newSeries) (cs_id cs) x \<and> ce_episode x = ce_episode pe
                           \<longrightarrow> x = pe)"
    from only e(2,3) have "e \<notin> set (episodeC s1)" by blast
    with or obtain i ep' where ep': "ep' \<in> set ?eps" "ce_episode ep' = ce_episode pe"
      "e = newEpisodeOf i (s_id newSeries) ep'" by blast
    from ep'(1,2) only have "ep' = pe" by simp
    with ep'(3) have n: "e = newEpisodeOf i (s_id newSeries) pe" by simp
    then have "copiesEpisodeFields pe (s_id newSeries) e"
      by (simp add: copiesEpisodeFields_newEpisodeOf)
    with e(1) n show "\<exists>e\<in>set (episodeC ?s2).
                           (\<exists>i. e = newEpisodeOf i (s_id newSeries) pe)
                           \<and> copiesEpisodeFields pe (s_id newSeries) e"
      by blast
  qed
qed

theorem episodes_released_with_series_witness:
  "faults exampleStore = [] \<and> wf exampleStore
   \<and> uniquePending exampleStore \<and> liveRefsOld exampleStore
   \<and> seriesX \<in> set (filter (seriesDue (clock exampleStore)) (comingSoonSeriesC exampleStore))
   \<and> episodeA \<in> set (comingSoonEpisodeC exampleStore)
   \<and> ce_comingSoonSeriesId episodeA = Some (cs_id seriesX) \<and> ce_status episodeA = Pending
   \<and> clock exampleStore < ce_scheduledReleaseDate episodeA
   \<and> (\<exists>l\<in>set (drop (length (seriesTransferLogC exampleStore))
                 (seriesTransferLogC (snd (releaseComingSoonSeries exampleStore)))).
          tl_comingSoonSeriesId l = cs_id seriesX
          \<and> newSeriesOf (tl_seriesId l) seriesX
               \<in> set (seriesC (snd (releaseComingSoonSeries exampleStore)))
          \<and> ce_id episodeA \<notin> ce_id ` set (comingSoonEpisodeC (snd (releaseComingSoonSeries exampleStore)))
          \<and> (\<exists>e\<in>set (episodeC (snd (releaseComingSoonSeries exampleStore))).
                (\<exists>i. e = newEpisodeOf i (tl_seriesId l) episodeA)
                \<and> copiesEpisodeFields episodeA (tl_seriesId l) e))
   \<and> episodeC (snd (releaseComingSoonSeries exampleStore))
       = [liveEpisode,
          \<lparr>e_id = 12, e_seriesId = 10, e_episode = 1, e_title = ''pilot'', e_coin = 0,
           e_views = 0, e_coinEarned = 0, e_videoUrl = ''a.mp4'', e_videoThumbnail = None\<rparr>]
   \<and> distinct (map ce_id (comingSoonEpisodeC exampleStore))
   \<and> episodeB \<in> set (comingSoonEpisodeC exampleStore)
   \<and> ce_seriesId episodeB = Some (s_id liveSeries) \<and> ce_status episodeB = Pending
   \<and> ce_episode episodeB
       \<notin> e_episode ` set (filter (\<lambda>e. e_seriesId e = s_id liveSeries) (episodeC exampleStore))
   \<and> filter (\<lambda>x. ofSeries (s_id liveSeries) (cs_id seriesX) x \<and> ce_episode x = ce_episode episodeB)
        (comingSoonEpisodeC exampleStore) = [episodeB]
   \<and> fst (releaseSeriesEpisodes seriesX liveSeries exampleStore) = Inr ()
   \<and> ce_id episodeB \<notin> ce_id ` set (comingSoonEpisodeC (snd (releaseSeriesEpisodes seriesX liveSeries exampleStore)))
   \<and> (\<exists>e\<in>set (episodeC (snd (releaseSeriesEpisodes seriesX liveSeries exampleStore))).
         (\<exists>i. e = newEpisodeOf i (s_id liveSeries) episodeB)
         \<and> copiesEpisodeFields episodeB (s_id liveSeries) e)"
proof -
  let ?s' = "snd (releaseComingSoonSeries exampleStore)"
  let ?s2 = "snd (releaseSeriesEpisodes seriesX liveSeries exampleStore)"
  have h1: "faults exampleStore = []" by (simp add: exampleStore_def)
  have h2: "wf exampleStore" by (simp add: wf_def example_defs)
  have u1: "uniquePending exampleStore" by (simp add: uniquePending_def example_defs)
  have u2: "liveRefsOld exampleStore" by (simp add: liveRefsOld_def example_defs)
  have h3: "seriesX \<in> set (filter (seriesDue (clock exampleStore)) (comingSoonSeriesC exampleStore))"
    by (simp add: seriesDue_def example_defs)
  have h4: "episodeA \<in> set (comingSoonEpisodeC exampleStore)" by (simp add: example_defs)
  have h5: "ce_comingSoonSeriesId episodeA = Some (cs_id seriesX) \<and> ce_status episodeA = Pending"
    by (simp add: example_defs)
  have h6: "clock exampleStore < ce_scheduledReleaseDate episodeA" by (simp add: example_defs)
  have h7: "distinct (map ce_id (comingSoonEpisodeC exampleStore))" by (simp add: example_defs)
  have h8: "episodeB \<in> set (comingSoonEpisodeC exampleStore)" by (simp add: example_defs)
  have h9: "(ce_seriesId episodeB = Some (s_id liveSeries)
              \<or> ce_comingSoonSeriesId episodeB = Some (cs_id seriesX))
            \<and> ce_status episodeB = Pending"
    by (simp add: example_defs)
  have h9': "ce_seriesId episodeB = Some (s_id liveSeries) \<and> ce_status episodeB = Pending"
    by (simp add: example_defs)
  have h10: "\<forall>e\<in>set (episodeC exampleStore).
       e_seriesId e = s_id liveSeries \<longrightarrow> e_episode e \<noteq> ce_episode episodeB"
    by (simp add: example_defs)
  have h10': "ce_episode episodeB
       \<notin> e_episode ` set (filter (\<lambda>e. e_seriesId e = s_id liveSeries) (episodeC exampleStore))"
    by (simp add: example_defs)
  have h11: "\<forall>x\<in>set (comingSoonEpisodeC exampleStore).
       ofSeries (s_id liveSeries) (cs_id seriesX) x \<and> ce_episode x = ce_episode episodeB
         \<longrightarrow> x = episodeB"
    by (simp add: example_defs ofSeries_def)
  have h11': "filter (\<lambda>x. ofSeries (s_id liveSeries) (cs_id seriesX) x \<and> ce_episode x = ce_episode episodeB)
        (comingSoonEpisodeC exampleStore) = [episodeB]"
    by (simp add: example_defs ofSeries_def)
  have ev: "episodeC ?s'
       = [liveEpisode,
          \<lparr>e_id = 12, e_seriesId = 10, e_episode = 1, e_title = ''pilot'', e_coin = 0,
           e_views = 0, e_coinEarned = 0, e_videoUrl = ''a.mp4'', e_videoThumbnail = None\<rparr>]"
    by (simp add: run_defs example_defs)
  note T = episodes_released_with_series[of exampleStore exampleStore seriesX liveSeries]
  from T h1 h2 u1 u2 have "\<forall>d\<in>set (filter (seriesDue (clock exampleStore)) (comingSoonSeriesC exampleStore)).
         \<exists>l\<in>set (drop (length (seriesTransferLogC exampleStore)) (seriesTransferLogC ?s')).
           tl_comingSoonSeriesId l = cs_id d
           \<and> newSeriesOf (tl_seriesId l) d \<in> set (seriesC ?s')
           \<and> (\<forall>pe\<in>set (comingSoonEpisodeC exampleStore).
                 ce_comingSoonSeriesId pe = Some (cs_id d) \<and> ce_status pe = Pending \<longrightarrow>
                   ce_id pe \<notin> ce_id ` set (comingSoonEpisodeC ?s')
                   \<and> (\<exists>e\<in>set (episodeC ?s').
                         (\<exists>i. e = newEpisodeOf i (tl_seriesId l) pe)
                         \<and> copiesEpisodeFields pe (tl_seriesId l) e))"
    by simp
  from bspec[OF this h3] obtain l where
    l: "l \<in> set (drop (length (seriesTransferLogC exampleStore)) (seriesTransferLogC ?s'))"
      "tl_comingSoonSeriesId l = cs_id seriesX"
      "newSeriesOf (tl_seriesId l) seriesX \<in> set (seriesC ?s')"
      "\<forall>pe\<in>set (comingSoonEpisodeC exampleStore).
                 ce_comingSoonSeriesId pe = Some (cs_id seriesX) \<and> ce_status pe = Pending \<longrightarrow>
                   ce_id pe \<notin> ce_id ` set (comingSoonEpisodeC ?s')
                   \<and> (\<exists>e\<in>set (episodeC ?s').
                         (\<exists>i. e = newEpisodeOf i (tl_seriesId l) pe)
                         \<and> copiesEpisodeFields pe (tl_seriesId l) e)"
    by blast
  from bspec[OF l(4) h4] h5 have a:
    "ce_id episodeA \<notin> ce_id ` set (comingSoonEpisodeC ?s')
     \<and> (\<exists>e\<in>set (episodeC ?s').
           (\<exists>i. e = newEpisodeOf i (tl_seriesId l) episodeA)
           \<and> copiesEpisodeFields episodeA (tl_seriesId l) e)"
    by (rule mp)
  from l(1,2,3) a have part1: "\<exists>l\<in>set (drop (length (seriesTransferLogC exampleStore))
                 (seriesTransferLogC ?s')).
          tl_comingSoonSeriesId l = cs_id seriesX
          \<and> newSeriesOf (tl_seriesId l) seriesX \<in> set (seriesC ?s')
          \<and> ce_id episodeA \<notin> ce_id ` set (comingSoonEpisodeC ?s')
          \<and> (\<exists>e\<in>set (episodeC ?s').
                (\<exists>i. e = newEpisodeOf i (tl_seriesId l) episodeA)
                \<and> copiesEpisodeFields episodeA (tl_seriesId l) e)"
    by (intro bexI[of _ l] conjI) simp_all
  from T h1 h7 have b: "fst (releaseSeriesEpisodes seriesX liveSeries exampleStore) = Inr ()"
    and c: "\<forall>pe\<in>set (comingSoonEpisodeC exampleStore).
              (ce_seriesId pe = Some (s_id liveSeries) \<or> ce_comingSoonSeriesId pe = Some (cs_id seriesX))
              \<and> ce_status pe = Pending \<longrightarrow>
                ce_id pe \<notin> ce_id ` set (comingSoonEpisodeC ?s2)
                \<and> (\<exists>e\<in>set (episodeC ?s2).
                      e_seriesId e = s_id liveSeries \<and> e_episode e = ce_episode pe)
                \<and> ((\<forall>e\<in>set (episodeC exampleStore).
                       e_seriesId e = s_id liveSeries \<longrightarrow> e_episode e \<noteq> ce_episode pe)
                    \<and> (\<forall>x\<in>set (comingSoonEpisodeC exampleStore).
                         ofSeries (s_id liveSeries) (cs_id seriesX) x \<and> ce_episode x = ce_episode pe
                           \<longrightarrow> x = pe)
                    \<longrightarrow> (\<exists>e\<in>set (episodeC ?s2).
                           (\<exists>i. e = newEpisodeOf i (s_id liveSeries) pe)
                           \<and> copiesEpisodeFields pe (s_id liveSeries) e))"
    by simp_all
  from bspec[OF c h8] h9 have d:
    "ce_id episodeB \<notin> ce_id ` set (comingSoonEpisodeC ?s2)
     \<and> (\<exists>e\<in>set (episodeC ?s2).
           e_seriesId e = s_id liveSeries \<and> e_episode e = ce_episode episodeB)
     \<and> ((\<forall>e\<in>set (episodeC exampleStore).
            e_seriesId e = s_id liveSeries \<longrightarrow> e_episode e \<noteq> ce_episode episodeB)
         \<and> (\<forall>x\<in>set (comingSoonEpisodeC exampleStore).
              ofSeries (s_id liveSeries) (cs_id seriesX) x \<and> ce_episode x = ce_episode episodeB
                \<longrightarrow> x = episodeB)
         \<longrightarrow> (\<exists>e\<in>set (episodeC ?s2).
                (\<exists>i. e = newEpisodeOf i (s_id liveSeries) episodeB)
                \<and> copiesEpisodeFields episodeB (s_id liveSeries) e))"
    by (rule mp)
  from d have gone: "ce_id episodeB \<notin> ce_id ` set (comingSoonEpisodeC ?s2)"
    by (rule conjunct1)
  from conjunct2[OF conjunct2[OF d]] conjI[OF h10 h11]
  have part2: "\<exists>e\<in>set (episodeC ?s2).
         (\<exists>i. e = newEpisodeOf i (s_id liveSeries) episodeB)
         \<and> copiesEpisodeFields episodeB (s_id liveSeries) e"
    by (rule mp)
  from h1 h2 u1 u2 h3 h4 h5 h6 part1 ev h7 h8 h9' h10' h11' b gone part2 show ?thesis
    by (intro conjI) simp_all
qed
subsection \<open>C3: running a promoter twice\<close>

text \<open>
  Claim C3: running a promoter twice in succession on the same due set, with the clock
  standing still, produces no duplicate live series or live episode and no error on the
  second run.  The code does not keep this for the Series Promoter.  A second run meets
  the same due series only when the first run did not finish it, that is when the store
  rejected one of its steps.  Series X is due, and in the first run the store rejects the
  creation of X's transfer-log entry with a timeout, after the live series 10 was saved:
  the failure is recorded and X stays pending.  The clock stands still and the store
  rejects nothing more.  The second run finds the same due set, returns without an
  error, writes no \<^verbatim>\<open>console.error\<close> line, and saves a second live series, 12, from the
  same coming-soon series.  When it is the mark as released that is rejected, the second
  run also appends a second transfer-log entry for X.
\<close>

theorem retried_series_promoted_twice:
  "err_code timeout \<noteq> ''ENOSPC''
   \<and> filter (seriesDue (clock exampleStore)) (comingSoonSeriesC exampleStore) = [seriesX]
   \<and> clock afterRejectedLog = clock exampleStore \<and> faults afterRejectedLog = []
   \<and> filter (seriesDue (clock afterRejectedLog)) (comingSoonSeriesC afterRejectedLog) = [seriesX]
   \<and> seriesC afterRejectedLog = [liveSeries, newSeriesOf 10 seriesX]
   \<and> fst (releaseComingSoonSeries afterRejectedLog) = Inr ()
   \<and> seriesC (snd (releaseComingSoonSeries afterRejectedLog))
       = [liveSeries, newSeriesOf 10 seriesX, newSeriesOf 12 seriesX]
   \<and> drop (length (console afterRejectedLog))
        (console (snd (releaseComingSoonSeries afterRejectedLog)))
       = [(LOG, FoundSeries 1), (LOG, ReleasedSeries ''X'' 12),
          (LOG, ReleasingEpisodesForSeries 1 ''X''), (LOG, ReleasedEpisodeForSeries 1 ''X''),
          (LOG, ReleasedSeriesCount 1)]
   \<and> filter (seriesDue (clock afterRejectedMark)) (comingSoonSeriesC afterRejectedMark) = [seriesX]
   \<and> map (\<lambda>l. (tl_comingSoonSeriesId l, tl_seriesId l)) (seriesTransferLogC afterRejectedMark)
       = [(1, 10)]
   \<and> seriesC (snd (releaseComingSoonSeries afterRejectedMark))
       = [liveSeries, newSeriesOf 10 seriesX, newSeriesOf 12 seriesX]
   \<and> map (\<lambda>l. (tl_comingSoonSeriesId l, tl_seriesId l))
        (seriesTransferLogC (snd (releaseComingSoonSeries afterRejectedMark)))
       = [(1, 10), (1, 12)]"
  by (simp add: run_defs example_defs afterRejectedLog_def afterRejectedMark_def timeout_def)

text \<open>
  What does hold is the case in which the first run was not interrupted.  Let the store
  reject nothing and the identifiers be unique, and let the clock stand still.  Running
  \<^verbatim>\<open>releaseComingSoonSeries\<close> twice in a row, the second run returns normally, leaves
  every collection as the first run left it and writes no \<^verbatim>\<open>console.error\<close> line; the
  same holds for \<^verbatim>\<open>releaseComingSoonEpisodes\<close>.  Live episodes that were unique per
  series and episode number still are, since the episode paths look for an existing live
  episode before they create one.
\<close>

lemma unrejected_second_run_changes_nothing:
  assumes "faults s = []" and "wf s"
  shows "fst (releaseComingSoonSeries (snd (releaseComingSoonSeries s))) = Inr ()
     \<and> sameData (snd (releaseComingSoonSeries s))
          (snd (releaseComingSoonSeries (snd (releaseComingSoonSeries s))))
     \<and> quiet (snd (releaseComingSoonSeries s))
          (snd (releaseComingSoonSeries (snd (releaseComingSoonSeries s))))
     \<and> fst (releaseComingSoonEpisodes (snd (releaseComingSoonEpisodes s))) = Inr ()
     \<and> sameData (snd (releaseComingSoonEpisodes s))
          (snd (releaseComingSoonEpisodes (snd (releaseComingSoonEpisodes s))))
     \<and> quiet (snd (releaseComingSoonEpisodes s))
          (snd (releaseComingSoonEpisodes (snd (releaseComingSoonEpisodes s))))
     \<and> distinct (map s_id (seriesC (snd (releaseComingSoonSeries (snd (releaseComingSoonSeries s))))))
     \<and> (uniqueEpisodes s \<longrightarrow>
          uniqueEpisodes (snd (releaseComingSoonSeries (snd (releaseComingSoonSeries s))))
          \<and> uniqueEpisodes (snd (releaseComingSoonEpisodes (snd (releaseComingSoonEpisodes s)))))"
proof -
  let ?due = "filter (seriesDue (clock s)) (comingSoonSeriesC s)"
  from releaseComingSoonSeries_nofault[OF assms] obtain s1 where
    r1: "releaseComingSoonSeries s = (Inr (), s1)" and f1: "faults s1 = []"
    and w1: "wf s1" and c1: "clock s1 = clock s"
    and a1: "comingSoonSeriesC s1 = filter (\<lambda>c. cs_id c \<notin> cs_id ` set ?due) (comingSoonSeriesC s)"
    by blast
  have "filter (seriesDue (clock s1)) (comingSoonSeriesC s1) = []"
    unfolding a1 c1 by (auto simp: filter_empty_conv)
  from releaseComingSoonSeries_nothing_due[OF f1 this] obtain s2 where
    r2: "releaseComingSoonSeries s1 = (Inr (), s2)" and d2: "sameData s1 s2" and q2: "quiet s1 s2"
    by blast
  have series: "fst (releaseComingSoonSeries (snd (releaseComingSoonSeries s))) = Inr ()
     \<and> sameData (snd (releaseComingSoonSeries s))
          (snd (releaseComingSoonSeries (snd (releaseComingSoonSeries s))))
     \<and> quiet (snd (releaseComingSoonSeries s))
          (snd (releaseComingSoonSeries (snd (releaseComingSoonSeries s))))"
    using r1 r2 d2 q2 by simp
  let ?L = "seriesTransferLogC s"
  let ?dueE = "filter (episodeDue (clock s)) (comingSoonEpisodeC s)"
  let ?gone = "ce_id ` set (filter (\<lambda>d. resolved ?L d \<noteq> None) ?dueE)"
  have dist: "distinct (map ce_id (comingSoonEpisodeC s))" using assms(2) by (simp add: wf_def)
  from releaseComingSoonEpisodes_nofault[OF assms(1) dist] obtain t1 where
    e1: "releaseComingSoonEpisodes s = (Inr (), t1)" and g1: "faults t1 = []"
    and k1: "clock t1 = clock s" "seriesTransferLogC t1 = ?L"
    and C1: "comingSoonEpisodeC t1 = filter (\<lambda>e. ce_id e \<notin> ?gone) (comingSoonEpisodeC s)"
    by blast
  have dist1: "distinct (map ce_id (comingSoonEpisodeC t1))"
    unfolding C1 using dist by (rule distinct_map_filter)
  let ?due1 = "filter (episodeDue (clock t1)) (comingSoonEpisodeC t1)"
  have none: "\<forall>d\<in>set ?due1. resolved (seriesTransferLogC t1) d = None"
  proof
    fix d assume "d \<in> set ?due1"
    then have d: "d \<in> set (comingSoonEpisodeC s)" "episodeDue (clock s) d" "ce_id d \<notin> ?gone"
      unfolding C1 k1 by simp_all
    show "resolved (seriesTransferLogC t1) d = None"
    proof (rule ccontr)
      assume "resolved (seriesTransferLogC t1) d \<noteq> None"
      then have "d \<in> set (filter (\<lambda>d. resolved ?L d \<noteq> None) ?dueE)"
        using d(1,2) by (simp add: k1)
      then have "ce_id d \<in> ?gone" by (rule imageI)
      with d(3) show False by blast
    qed
  qed
  from releaseComingSoonEpisodes_nofault[OF g1 dist1] obtain t2 where
    e2: "releaseComingSoonEpisodes t1 = (Inr (), t2)"
    and k2: "comingSoonSeriesC t2 = comingSoonSeriesC t1" "seriesC t2 = seriesC t1"
      "seriesTransferLogC t2 = seriesTransferLogC t1"
    and q2': "quiet t1 t2"
    and C2: "comingSoonEpisodeC t2 =
         filter (\<lambda>e. ce_id e \<notin> ce_id ` set (filter (\<lambda>d. resolved (seriesTransferLogC t1) d \<noteq> None) ?due1))
           (comingSoonEpisodeC t1)"
    and z2: "(\<forall>d\<in>set ?due1. resolved (seriesTransferLogC t1) d = None) \<longrightarrow>
           episodeC t2 = episodeC t1 \<and> nextObjectId t2 = nextObjectId t1"
    by blast
  have "filter (\<lambda>d. resolved (seriesTransferLogC t1) d \<noteq> None) ?due1 = []"
    using none by (simp add: filter_empty_conv)
  then have C2': "comingSoonEpisodeC t2 = comingSoonEpisodeC t1"
    using C2 by simp
  have "sameData t1 t2"
    using k2 C2' z2 none by (simp add: sameData_def)
  then have episodes: "fst (releaseComingSoonEpisodes (snd (releaseComingSoonEpisodes s))) = Inr ()
     \<and> sameData (snd (releaseComingSoonEpisodes s))
          (snd (releaseComingSoonEpisodes (snd (releaseComingSoonEpisodes s))))
     \<and> quiet (snd (releaseComingSoonEpisodes s))
          (snd (releaseComingSoonEpisodes (snd (releaseComingSoonEpisodes s))))"
    using e1 e2 q2' by simp
  have "distinct (map s_id (seriesC s1))" using w1 by (simp add: wf_def)
  then have ids: "distinct (map s_id (seriesC (snd (releaseComingSoonSeries (snd (releaseComingSoonSeries s))))))"
    using r1 r2 d2 by (simp add: sameData_def)
  have env: "ignoresEnv uniqueEpisodes"
    using episodeWrites_uniqueEpisodes by (simp add: episodeWrites_def)
  have us: "uniqueEpisodes (snd (releaseComingSoonSeries t))" if "uniqueEpisodes t" for t
    by (rule releaseComingSoonSeries_preserves[where P = uniqueEpisodes])
      (simp_all add: seriesWrites_uniqueEpisodes env that)
  have ue: "uniqueEpisodes (snd (releaseComingSoonEpisodes t))" if "uniqueEpisodes t" for t
    using that by (rule preservesD[OF preserves_releaseComingSoonEpisodes[OF episodeWrites_uniqueEpisodes]])
  have uniq: "uniqueEpisodes s \<longrightarrow>
          uniqueEpisodes (snd (releaseComingSoonSeries (snd (releaseComingSoonSeries s))))
          \<and> uniqueEpisodes (snd (releaseComingSoonEpisodes (snd (releaseComingSoonEpisodes s))))"
    using us ue by blast
  from series episodes ids uniq show ?thesis by (intro conjI) simp_all
qed
subsection \<open>C4: a storage-exhaustion error ends the batch\<close>

text \<open>
  Claim C4 as stated does not hold: a partially processed item can be left marked
  released.  Series X and W are due.  The store rejects the \<^verbatim>\<open>findByIdAndDelete\<close> of X
  with \<^verbatim>\<open>ENOSPC\<close>, the step that follows the mark: the batch is aborted (W is not
  touched), and X, whose processing was cut short, stays in the store at status released.
\<close>

theorem storage_error_marks_released_counterexample:
  "err_code diskFull = ''ENOSPC''
   \<and> map (\<lambda>c. (cs_id c, cs_status c)) (comingSoonSeriesC busyStore)
       = [(1, Pending), (9, Pending), (4, Pending), (8, Released)]
   \<and> map (\<lambda>c. (cs_id c, cs_status c))
        (comingSoonSeriesC (snd (releaseComingSoonSeries
           (busyStore\<lparr>faults := [None, None, None, None, None, Some diskFull]\<rparr>))))
       = [(1, Released), (9, Pending), (4, Pending), (8, Released)]
   \<and> console (snd (releaseComingSoonSeries
           (busyStore\<lparr>faults := [None, None, None, None, None, Some diskFull]\<rparr>)))
       = [(LOG, FoundSeries 2), (ERROR, DiskFullSeries 1)]"
  by (simp add: run_defs example_defs diskFull_def)

text \<open>
  Claim C4, amended.  When the body of one iteration of either promoter throws, that is
  when an error reaches the per-item \<^verbatim>\<open>catch\<close>: an error with code \<^verbatim>\<open>ENOSPC\<close> ends the
  loop at once, with the locals as they are and the store as the failed body left it plus
  one \<^verbatim>\<open>console.error\<close> line, whatever items remain; any other error is pushed on
  \<^verbatim>\<open>errors\<close> and the loop goes on with the next item.  What the failed body left: the
  live collections and the transfer log only grew.  A failing series is unchanged, with
  the coming-soon episodes unchanged or those of the series carrying the new live series'
  id as \<^verbatim>\<open>seriesId\<close>; or it is marked released or deleted, and then its own promotion is
  complete but for that: its live series is saved, its episodes carry the new series' id
  and its transfer-log entry is appended.  Every other coming-soon series, and every
  coming-soon episode that does not have the failing series as its
  \<^verbatim>\<open>comingSoonSeriesId\<close>, is still there unchanged.  A failing episode is unchanged but
  for a \<^verbatim>\<open>seriesId\<close> written back; or it is, besides, marked released, and then a live
  episode with its number exists under its series.  The coming-soon series are unchanged
  and every other coming-soon episode is still there unchanged.  A whole run of either
  promoter, with any errors, only extends the live collections and the transfer log.
\<close>

theorem storage_error_aborts_batch:
  "(releaseSeries cs released s = (Inl e, released', sa) \<longrightarrow>
      (err_code e = ''ENOSPC'' \<longrightarrow>
         seriesLoop (cs # rest) (released, errors) s =
           ((released', errors), logged ERROR (DiskFullSeries (cs_id cs)) sa))
      \<and> (err_code e \<noteq> ''ENOSPC'' \<longrightarrow>
         seriesLoop (cs # rest) (released, errors) s =
           seriesLoop rest (released', errors @ [(cs_id cs, err_message e)])
             (logged ERROR (ErrorReleasingSeries (cs_id cs) (err_message e)) sa))
      \<and> grows s sa
      \<and> ((comingSoonSeriesC sa = comingSoonSeriesC s
            \<and> (comingSoonEpisodeC sa = comingSoonEpisodeC s
                 \<or> comingSoonEpisodeC sa =
                     map (relinked (cs_id cs) (nextObjectId s)) (comingSoonEpisodeC s)))
           \<or> ((comingSoonSeriesC sa =
                  updateFirst (\<lambda>c. cs_id c = cs_id cs) (\<lambda>c. c\<lparr>cs_status := Released\<rparr>)
                    (comingSoonSeriesC s)
                \<or> comingSoonSeriesC sa =
                    deleteFirst (\<lambda>c. cs_id c = cs_id cs) (comingSoonSeriesC s))
               \<and> coreDone cs s sa))
      \<and> (\<forall>r\<in>set (comingSoonSeriesC s). cs_id r \<noteq> cs_id cs \<longrightarrow> r \<in> set (comingSoonSeriesC sa))
      \<and> (\<forall>r\<in>set (comingSoonEpisodeC s).
            ce_comingSoonSeriesId r \<noteq> Some (cs_id cs) \<longrightarrow> r \<in> set (comingSoonEpisodeC sa)))
   \<and> (releaseEpisode ce s = (Inl e, sb) \<longrightarrow>
      (err_code e = ''ENOSPC'' \<longrightarrow>
         episodesLoop (ce # remaining) (promoted, failed) s =
           ((promoted, failed), logged ERROR (DiskFullEpisode (ce_id ce)) sb))
      \<and> (err_code e \<noteq> ''ENOSPC'' \<longrightarrow>
         episodesLoop (ce # remaining) (promoted, failed) s =
           episodesLoop remaining (promoted, failed @ [(ce_id ce, err_message e)])
             (logged ERROR (ErrorReleasingEpisode (ce_id ce) (err_message e)) sb))
      \<and> grows s sb
      \<and> ((comingSoonEpisodeC sb = comingSoonEpisodeC s
            \<or> (\<exists>sid. comingSoonEpisodeC sb =
                   updateFirst (\<lambda>x. ce_id x = ce_id ce) (\<lambda>x. x\<lparr>ce_seriesId := Some sid\<rparr>)
                     (comingSoonEpisodeC s)))
           \<or> (\<exists>sid X. ((ce_seriesId ce = Some sid \<and> X = comingSoonEpisodeC s)
                         \<or> X = updateFirst (\<lambda>x. ce_id x = ce_id ce)
                                 (\<lambda>x. x\<lparr>ce_seriesId := Some sid\<rparr>) (comingSoonEpisodeC s))
                    \<and> comingSoonEpisodeC sb =
                        updateFirst (\<lambda>x. ce_id x = ce_id ce) (\<lambda>x. x\<lparr>ce_status := Released\<rparr>) X
                    \<and> (\<exists>x\<in>set (episodeC sb).
                          e_seriesId x = sid \<and> e_episode x = ce_episode ce)))
      \<and> comingSoonSeriesC sb = comingSoonSeriesC s
      \<and> (\<forall>r\<in>set (comingSoonEpisodeC s). ce_id r \<noteq> ce_id ce \<longrightarrow> r \<in> set (comingSoonEpisodeC sb)))
   \<and> grows s (snd (releaseComingSoonSeries s))
   \<and> grows s (snd (releaseComingSoonEpisodes s))"
proof (intro conjI impI ballI)
  assume a: "releaseSeries cs released s = (Inl e, released', sa)"
  show "seriesLoop (cs # rest) (released, errors) s =
           ((released', errors), logged ERROR (DiskFullSeries (cs_id cs)) sa)"
    if "err_code e = ''ENOSPC''"
    using a that by simp
  show "seriesLoop (cs # rest) (released, errors) s =
           seriesLoop rest (released', errors @ [(cs_id cs, err_message e)])
             (logged ERROR (ErrorReleasingSeries (cs_id cs) (err_message e)) sa)"
    if "err_code e \<noteq> ''ENOSPC''"
    using a that by simp
  show "grows s sa" using grows_releaseSeries[of s cs released] a by simp
  show "(comingSoonSeriesC sa = comingSoonSeriesC s
            \<and> (comingSoonEpisodeC sa = comingSoonEpisodeC s
                 \<or> comingSoonEpisodeC sa =
                     map (relinked (cs_id cs) (nextObjectId s)) (comingSoonEpisodeC s)))
           \<or> ((comingSoonSeriesC sa =
                  updateFirst (\<lambda>c. cs_id c = cs_id cs) (\<lambda>c. c\<lparr>cs_status := Released\<rparr>)
                    (comingSoonSeriesC s)
                \<or> comingSoonSeriesC sa =
                    deleteFirst (\<lambda>c. cs_id c = cs_id cs) (comingSoonSeriesC s))
               \<and> coreDone cs s sa)"
    using a by (rule releaseSeries_Inl_done)
  show "r \<in> set (comingSoonSeriesC sa)"
    if "r \<in> set (comingSoonSeriesC s)" "cs_id r \<noteq> cs_id cs" for r
    using a that by (rule releaseSeries_Inl_others)
  show "r \<in> set (comingSoonEpisodeC sa)"
    if "r \<in> set (comingSoonEpisodeC s)" "ce_comingSoonSeriesId r \<noteq> Some (cs_id cs)" for r
    using a that by (rule releaseSeries_Inl_other_episodes)
next
  assume a: "releaseEpisode ce s = (Inl e, sb)"
  show "episodesLoop (ce # remaining) (promoted, failed) s =
           ((promoted, failed), logged ERROR (DiskFullEpisode (ce_id ce)) sb)"
    if "err_code e = ''ENOSPC''"
    using a that by simp
  show "episodesLoop (ce # remaining) (promoted, failed) s =
           episodesLoop remaining (promoted, failed @ [(ce_id ce, err_message e)])
             (logged ERROR (ErrorReleasingEpisode (ce_id ce) (err_message e)) sb)"
    if "err_code e \<noteq> ''ENOSPC''"
    using a that by simp
  show "grows s sb" using grows_releaseEpisode[of s ce] a by simp
  show "(comingSoonEpisodeC sb = comingSoonEpisodeC s
            \<or> (\<exists>sid. comingSoonEpisodeC sb =
                   updateFirst (\<lambda>x. ce_id x = ce_id ce) (\<lambda>x. x\<lparr>ce_seriesId := Some sid\<rparr>)
                     (comingSoonEpisodeC s)))
           \<or> (\<exists>sid X. ((ce_seriesId ce = Some sid \<and> X = comingSoonEpisodeC s)
                         \<or> X = updateFirst (\<lambda>x. ce_id x = ce_id ce)
                                 (\<lambda>x. x\<lparr>ce_seriesId := Some sid\<rparr>) (comingSoonEpisodeC s))
                    \<and> comingSoonEpisodeC sb =
                        updateFirst (\<lambda>x. ce_id x = ce_id ce) (\<lambda>x. x\<lparr>ce_status := Released\<rparr>) X
                    \<and> (\<exists>x\<in>set (episodeC sb).
                          e_seriesId x = sid \<and> e_episode x = ce_episode ce))"
    using a by (rule releaseEpisode_Inl_live)
  show "comingSoonSeriesC sb = comingSoonSeriesC s"
    using releaseEpisode_sameSeries[of ce s] a by simp
  show "r \<in> set (comingSoonEpisodeC sb)"
    if "r \<in> set (comingSoonEpisodeC s)" "ce_id r \<noteq> ce_id ce" for r
    using a that by (rule releaseEpisode_Inl_others)
next
  show "grows s (snd (releaseComingSoonSeries s))" by (rule grows_releaseComingSoonSeries)
  show "grows s (snd (releaseComingSoonEpisodes s))" by (rule grows_releaseComingSoonEpisodes)
qed

theorem storage_error_aborts_batch_witness:
  "err_code diskFull = ''ENOSPC'' \<and> err_code timeout \<noteq> ''ENOSPC''
   \<and> releaseSeries seriesX [] (busyStore\<lparr>faults := [None, None, None, None, Some diskFull]\<rparr>)
       = (Inl diskFull, [],
          snd (snd (releaseSeries seriesX [] (busyStore\<lparr>faults := [None, None, None, None, Some diskFull]\<rparr>))))
   \<and> seriesLoop [seriesX, seriesW] ([], []) (busyStore\<lparr>faults := [None, None, None, None, Some diskFull]\<rparr>)
       = (([], []),
          logged ERROR (DiskFullSeries (cs_id seriesX))
            (snd (snd (releaseSeries seriesX [] (busyStore\<lparr>faults := [None, None, None, None, Some diskFull]\<rparr>)))))
   \<and> seriesW \<in> set (comingSoonSeriesC
         (snd (snd (releaseSeries seriesX [] (busyStore\<lparr>faults := [None, None, None, None, Some diskFull]\<rparr>)))))
   \<and> grows (busyStore\<lparr>faults := [None, None, None, None, Some diskFull]\<rparr>)
         (snd (snd (releaseSeries seriesX [] (busyStore\<lparr>faults := [None, None, None, None, Some diskFull]\<rparr>))))
   \<and> episodeC0 \<in> set (comingSoonEpisodeC
         (snd (snd (releaseSeries seriesX [] (busyStore\<lparr>faults := [None, None, None, None, Some diskFull]\<rparr>)))))
   \<and> comingSoonEpisodeC
         (snd (snd (releaseSeries seriesX [] (busyStore\<lparr>faults := [None, None, None, None, Some diskFull]\<rparr>))))
       = [episodeA\<lparr>ce_seriesId := Some 10\<rparr>, episodeB, episodeC0]
   \<and> map (\<lambda>c. (cs_id c, cs_status c)) (comingSoonSeriesC
         (snd (snd (releaseSeries seriesX [] (busyStore\<lparr>faults := [None, None, None, None, Some diskFull]\<rparr>)))))
       = [(1, Released), (9, Pending), (4, Pending), (8, Released)]
   \<and> coreDone seriesX (busyStore\<lparr>faults := [None, None, None, None, Some diskFull]\<rparr>)
         (snd (snd (releaseSeries seriesX [] (busyStore\<lparr>faults := [None, None, None, None, Some diskFull]\<rparr>))))
   \<and> releaseSeries seriesX [] (busyStore\<lparr>faults := [None, Some timeout]\<rparr>)
       = (Inl timeout, [], snd (snd (releaseSeries seriesX [] (busyStore\<lparr>faults := [None, Some timeout]\<rparr>))))
   \<and> seriesLoop [seriesX, seriesW] ([], []) (busyStore\<lparr>faults := [None, Some timeout]\<rparr>)
       = seriesLoop [seriesW] ([], [(cs_id seriesX, err_message timeout)])
           (logged ERROR (ErrorReleasingSeries (cs_id seriesX) (err_message timeout))
              (snd (snd (releaseSeries seriesX [] (busyStore\<lparr>faults := [None, Some timeout]\<rparr>)))))
   \<and> releaseEpisode episodeB (exampleStore\<lparr>faults := [None, Some diskFull]\<rparr>)
       = (Inl diskFull, snd (releaseEpisode episodeB (exampleStore\<lparr>faults := [None, Some diskFull]\<rparr>)))
   \<and> episodesLoop [episodeB, episodeC0] ([], []) (exampleStore\<lparr>faults := [None, Some diskFull]\<rparr>)
       = (([], []),
          logged ERROR (DiskFullEpisode (ce_id episodeB))
            (snd (releaseEpisode episodeB (exampleStore\<lparr>faults := [None, Some diskFull]\<rparr>))))
   \<and> episodeC0 \<in> set (comingSoonEpisodeC
         (snd (releaseEpisode episodeB (exampleStore\<lparr>faults := [None, Some diskFull]\<rparr>))))
   \<and> map (\<lambda>x. (ce_id x, ce_status x)) (comingSoonEpisodeC
         (snd (releaseEpisode episodeB (exampleStore\<lparr>faults := [None, None, None, Some diskFull]\<rparr>))))
       = [(2, Pending), (5, Released), (6, Pending)]
   \<and> episodeC (snd (releaseEpisode episodeB (exampleStore\<lparr>faults := [None, None, None, Some diskFull]\<rparr>)))
       = [liveEpisode, newEpisodeOf 10 3 episodeB]
   \<and> releaseEpisode episodeB (exampleStore\<lparr>faults := [None, Some timeout]\<rparr>)
       = (Inl timeout, snd (releaseEpisode episodeB (exampleStore\<lparr>faults := [None, Some timeout]\<rparr>)))
   \<and> episodesLoop [episodeB, episodeC0] ([], []) (exampleStore\<lparr>faults := [None, Some timeout]\<rparr>)
       = episodesLoop [episodeC0] ([], [(ce_id episodeB, err_message timeout)])
           (logged ERROR (ErrorReleasingEpisode (ce_id episodeB) (err_message timeout))
              (snd (releaseEpisode episodeB (exampleStore\<lparr>faults := [None, Some timeout]\<rparr>))))"
proof -
  let ?A = "busyStore\<lparr>faults := [None, None, None, None, Some diskFull]\<rparr>"
  let ?B = "busyStore\<lparr>faults := [None, Some timeout]\<rparr>"
  let ?E = "exampleStore\<lparr>faults := [None, Some diskFull]\<rparr>"
  let ?F = "exampleStore\<lparr>faults := [None, Some timeout]\<rparr>"
  have c1: "err_code diskFull = ''ENOSPC''" and c2: "err_code timeout \<noteq> ''ENOSPC''"
    by (simp_all add: diskFull_def timeout_def)
  have hA: "releaseSeries seriesX [] ?A = (Inl diskFull, [], snd (snd (releaseSeries seriesX [] ?A)))"
    by (simp add: run_defs example_defs)
  have hB: "releaseSeries seriesX [] ?B = (Inl timeout, [], snd (snd (releaseSeries seriesX [] ?B)))"
    by (simp add: run_defs example_defs)
  have hE: "releaseEpisode episodeB ?E = (Inl diskFull, snd (releaseEpisode episodeB ?E))"
    by (simp add: run_defs example_defs)
  have hF: "releaseEpisode episodeB ?F = (Inl timeout, snd (releaseEpisode episodeB ?F))"
    by (simp add: run_defs example_defs)
  have w: "seriesW \<in> set (comingSoonSeriesC ?A)" "cs_id seriesW \<noteq> cs_id seriesX"
    by (simp_all add: example_defs)
  have v: "episodeC0 \<in> set (comingSoonEpisodeC ?E)" "ce_id episodeC0 \<noteq> ce_id episodeB"
    by (simp_all add: example_defs)
  note TA = storage_error_aborts_batch[where cs = seriesX and released = "[]" and s = ?A
      and e = diskFull and released' = "[]" and sa = "snd (snd (releaseSeries seriesX [] ?A))"
      and rest = "[seriesW]" and errors = "[]"]
  from TA hA c1 have a1: "seriesLoop [seriesX, seriesW] ([], []) ?A =
       (([], []), logged ERROR (DiskFullSeries (cs_id seriesX)) (snd (snd (releaseSeries seriesX [] ?A))))"
    by blast
  from TA hA have a2: "\<forall>r\<in>set (comingSoonSeriesC ?A). cs_id r \<noteq> cs_id seriesX \<longrightarrow>
       r \<in> set (comingSoonSeriesC (snd (snd (releaseSeries seriesX [] ?A))))"
    and a3: "grows ?A (snd (snd (releaseSeries seriesX [] ?A)))"
    by blast+
  from bspec[OF a2 w(1)] w(2)
  have a4: "seriesW \<in> set (comingSoonSeriesC (snd (snd (releaseSeries seriesX [] ?A))))" by (rule mp)
  from TA hA have a5: "\<forall>r\<in>set (comingSoonEpisodeC ?A).
       ce_comingSoonSeriesId r \<noteq> Some (cs_id seriesX) \<longrightarrow>
       r \<in> set (comingSoonEpisodeC (snd (snd (releaseSeries seriesX [] ?A))))"
    by blast
  have w': "episodeC0 \<in> set (comingSoonEpisodeC ?A)"
    "ce_comingSoonSeriesId episodeC0 \<noteq> Some (cs_id seriesX)"
    by (simp_all add: example_defs)
  from bspec[OF a5 w'(1)] w'(2)
  have a6: "episodeC0 \<in> set (comingSoonEpisodeC (snd (snd (releaseSeries seriesX [] ?A))))"
    by (rule mp)
  have a7: "comingSoonEpisodeC (snd (snd (releaseSeries seriesX [] ?A)))
       = [episodeA\<lparr>ce_seriesId := Some 10\<rparr>, episodeB, episodeC0]"
    by (simp add: run_defs example_defs)
  have a8: "map (\<lambda>c. (cs_id c, cs_status c)) (comingSoonSeriesC (snd (snd (releaseSeries seriesX [] ?A))))
       = [(1, Released), (9, Pending), (4, Pending), (8, Released)]"
    by (simp add: run_defs example_defs)
  have a9: "coreDone seriesX ?A (snd (snd (releaseSeries seriesX [] ?A)))"
    by (simp add: run_defs example_defs coreDone_def)
  have e4: "map (\<lambda>x. (ce_id x, ce_status x)) (comingSoonEpisodeC
         (snd (releaseEpisode episodeB (exampleStore\<lparr>faults := [None, None, None, Some diskFull]\<rparr>))))
       = [(2, Pending), (5, Released), (6, Pending)]"
    by (simp add: run_defs example_defs)
  have e5: "episodeC (snd (releaseEpisode episodeB (exampleStore\<lparr>faults := [None, None, None, Some diskFull]\<rparr>)))
       = [liveEpisode, newEpisodeOf 10 3 episodeB]"
    by (simp add: run_defs example_defs)
  note TB = storage_error_aborts_batch[where cs = seriesX and released = "[]" and s = ?B
      and e = timeout and released' = "[]" and sa = "snd (snd (releaseSeries seriesX [] ?B))"
      and rest = "[seriesW]" and errors = "[]"]
  from TB hB c2 have b1: "seriesLoop [seriesX, seriesW] ([], []) ?B =
       seriesLoop [seriesW] ([], [] @ [(cs_id seriesX, err_message timeout)])
         (logged ERROR (ErrorReleasingSeries (cs_id seriesX) (err_message timeout))
            (snd (snd (releaseSeries seriesX [] ?B))))"
    by blast
  note TE = storage_error_aborts_batch[where ce = episodeB and s = ?E and e = diskFull
      and sb = "snd (releaseEpisode episodeB ?E)" and remaining = "[episodeC0]"
      and promoted = "[]" and failed = "[]"]
  from TE hE c1 have e1: "episodesLoop [episodeB, episodeC0] ([], []) ?E =
       (([], []), logged ERROR (DiskFullEpisode (ce_id episodeB)) (snd (releaseEpisode episodeB ?E)))"
    by blast
  from TE hE have e2: "\<forall>r\<in>set (comingSoonEpisodeC ?E). ce_id r \<noteq> ce_id episodeB \<longrightarrow>
       r \<in> set (comingSoonEpisodeC (snd (releaseEpisode episodeB ?E)))"
    by blast
  from bspec[OF e2 v(1)] v(2)
  have e3: "episodeC0 \<in> set (comingSoonEpisodeC (snd (releaseEpisode episodeB ?E)))" by (rule mp)
  note TF = storage_error_aborts_batch[where ce = episodeB and s = ?F and e = timeout
      and sb = "snd (releaseEpisode episodeB ?F)" and remaining = "[episodeC0]"
      and promoted = "[]" and failed = "[]"]
  from TF hF c2 have f1: "episodesLoop [episodeB, episodeC0] ([], []) ?F =
       episodesLoop [episodeC0] ([], [] @ [(ce_id episodeB, err_message timeout)])
         (logged ERROR (ErrorReleasingEpisode (ce_id episodeB) (err_message timeout))
            (snd (releaseEpisode episodeB ?F)))"
    by blast
  from c1 c2 hA a1 a4 a3 a6 a7 a8 a9 hB b1 hE e1 e3 e4 e5 hF f1 show ?thesis
    by (intro conjI) simp_all
qed
subsection \<open>C5: episodes without a series id\<close>

text \<open>
  Claim C5.  When the store rejects nothing and episode ids are unique, one run of
  \<^verbatim>\<open>releaseComingSoonEpisodes\<close> returns normally without a \<^verbatim>\<open>console.error\<close> line, and for
  every due episode whose \<^verbatim>\<open>seriesId\<close> is absent: if the transfer log has an entry for its
  \<^verbatim>\<open>comingSoonSeriesId\<close>, the episode is gone from coming soon and exists as a live episode
  of the \<^verbatim>\<open>seriesId\<close> of the first such entry; if there is no entry (or no
  \<^verbatim>\<open>comingSoonSeriesId\<close> either) the very same document, still pending, is in the store
  after the run.  The second part shows that the resolved id is written back at once:
  when the lookup and the write-back succeed and the next operation is rejected, the
  pending document already carries the resolved \<^verbatim>\<open>seriesId\<close>.
\<close>

theorem unlinked_episode_resolved_or_left:
  "(faults s = [] \<and> distinct (map ce_id (comingSoonEpisodeC s)) \<longrightarrow>
      fst (releaseComingSoonEpisodes s) = Inr ()
      \<and> quiet s (snd (releaseComingSoonEpisodes s))
      \<and> (\<forall>ce\<in>set (filter (episodeDue (clock s)) (comingSoonEpisodeC s)).
            ce_seriesId ce = None \<longrightarrow>
              (case ce_comingSoonSeriesId ce of
                 None \<Rightarrow> ce \<in> set (comingSoonEpisodeC (snd (releaseComingSoonEpisodes s)))
               | Some csid \<Rightarrow>
                   (case find (\<lambda>l. tl_comingSoonSeriesId l = csid) (seriesTransferLogC s) of
                      None \<Rightarrow> ce \<in> set (comingSoonEpisodeC (snd (releaseComingSoonEpisodes s)))
                    | Some l \<Rightarrow>
                        ce_id ce \<notin> ce_id ` set (comingSoonEpisodeC (snd (releaseComingSoonEpisodes s)))
                        \<and> (\<exists>x\<in>set (episodeC (snd (releaseComingSoonEpisodes s))).
                              e_seriesId x = tl_seriesId l \<and> e_episode x = ce_episode ce)))))
   \<and> (ce_seriesId ce = None \<and> ce_comingSoonSeriesId ce = Some csid
        \<and> find (\<lambda>l. tl_comingSoonSeriesId l = csid) (seriesTransferLogC s) = Some l
        \<and> faults s = None # None # Some e # fs \<longrightarrow>
        releaseEpisode ce s =
          (Inl e,
           s\<lparr>faults := fs,
             comingSoonEpisodeC :=
               updateFirst (\<lambda>x. ce_id x = ce_id ce) (\<lambda>x. x\<lparr>ce_seriesId := Some (tl_seriesId l)\<rparr>)
                 (comingSoonEpisodeC s),
             console := console s @ [(LOG, ResolvedSeriesId (tl_seriesId l) (ce_id ce))]\<rparr>))"
proof (intro conjI impI)
  assume a: "faults s = [] \<and> distinct (map ce_id (comingSoonEpisodeC s))"
  let ?L = "seriesTransferLogC s"
  let ?due = "filter (episodeDue (clock s)) (comingSoonEpisodeC s)"
  let ?gone = "ce_id ` set (filter (\<lambda>d. resolved ?L d \<noteq> None) ?due)"
  from a have f: "faults s = []" and dist: "distinct (map ce_id (comingSoonEpisodeC s))"
    by simp_all
  from releaseComingSoonEpisodes_nofault[OF f dist] obtain s' where
    r: "releaseComingSoonEpisodes s = (Inr (), s')" and q: "quiet s s'"
    and C: "comingSoonEpisodeC s' = filter (\<lambda>e. ce_id e \<notin> ?gone) (comingSoonEpisodeC s)"
    and h: "\<forall>d\<in>set ?due. \<forall>sid. resolved ?L d = Some sid \<longrightarrow>
             (\<exists>e\<in>set (episodeC s'). e_seriesId e = sid \<and> e_episode e = ce_episode d)"
    by blast
  have s': "snd (releaseComingSoonEpisodes s) = s'" using r by simp
  show "fst (releaseComingSoonEpisodes s) = Inr ()" using r by simp
  show "quiet s (snd (releaseComingSoonEpisodes s))" using q s' by simp
  have stays: "ce \<in> set (comingSoonEpisodeC s')" if "ce \<in> set ?due" "resolved ?L ce = None" for ce
  proof -
    have in_C: "ce \<in> set (comingSoonEpisodeC s)" using that(1) by simp
    have "ce_id ce \<notin> ?gone"
    proof
      assume "ce_id ce \<in> ?gone"
      then obtain d where d: "d \<in> set (filter (\<lambda>d. resolved ?L d \<noteq> None) ?due)" "ce_id d = ce_id ce"
        by (rule imageE) simp
      then have "d \<in> set (comingSoonEpisodeC s)" by simp
      with dist in_C d(2) have "d = ce" by (meson distinct_map inj_onD)
      with d(1) that(2) show False by simp
    qed
    with in_C show ?thesis unfolding C by simp
  qed
  have goes: "ce_id ce \<notin> ce_id ` set (comingSoonEpisodeC s')
      \<and> (\<exists>x\<in>set (episodeC s'). e_seriesId x = sid \<and> e_episode x = ce_episode ce)"
    if "ce \<in> set ?due" "resolved ?L ce = Some sid" for ce sid
  proof -
    have "ce \<in> set (filter (\<lambda>d. resolved ?L d \<noteq> None) ?due)" using that by simp
    then have "ce_id ce \<in> ?gone" by (rule imageI)
    then have 1: "ce_id ce \<notin> ce_id ` set (comingSoonEpisodeC s')" unfolding C by auto
    from h that have 2: "\<exists>x\<in>set (episodeC s'). e_seriesId x = sid \<and> e_episode x = ce_episode ce"
      by blast
    from 1 2 show ?thesis ..
  qed
  show "\<forall>ce\<in>set ?due. ce_seriesId ce = None \<longrightarrow>
              (case ce_comingSoonSeriesId ce of
                 None \<Rightarrow> ce \<in> set (comingSoonEpisodeC (snd (releaseComingSoonEpisodes s)))
               | Some csid \<Rightarrow>
                   (case find (\<lambda>l. tl_comingSoonSeriesId l = csid) ?L of
                      None \<Rightarrow> ce \<in> set (comingSoonEpisodeC (snd (releaseComingSoonEpisodes s)))
                    | Some l \<Rightarrow>
                        ce_id ce \<notin> ce_id ` set (comingSoonEpisodeC (snd (releaseComingSoonEpisodes s)))
                        \<and> (\<exists>x\<in>set (episodeC (snd (releaseComingSoonEpisodes s))).
                              e_seriesId x = tl_seriesId l \<and> e_episode x = ce_episode ce)))"
    unfolding s'
  proof (intro ballI impI)
    fix ce assume ce: "ce \<in> set ?due" "ce_seriesId ce = None"
    show "case ce_comingSoonSeriesId ce of
                 None \<Rightarrow> ce \<in> set (comingSoonEpisodeC s')
               | Some csid \<Rightarrow>
                   (case find (\<lambda>l. tl_comingSoonSeriesId l = csid) ?L of
                      None \<Rightarrow> ce \<in> set (comingSoonEpisodeC s')
                    | Some l \<Rightarrow>
                        ce_id ce \<notin> ce_id ` set (comingSoonEpisodeC s')
                        \<and> (\<exists>x\<in>set (episodeC s').
                              e_seriesId x = tl_seriesId l \<and> e_episode x = ce_episode ce))"
    proof (cases "ce_comingSoonSeriesId ce")
      case None
      with ce(2) have "resolved ?L ce = None" by (simp add: resolved_def)
      with stays[OF ce(1)] None show ?thesis by simp
    next
      case (Some csid)
      show ?thesis
      proof (cases "find (\<lambda>l. tl_comingSoonSeriesId l = csid) ?L")
        case None
        with ce(2) Some have "resolved ?L ce = None" by (simp add: resolved_def)
        with stays[OF ce(1)] Some None show ?thesis by simp
      next
        case (Some l)
        with ce(2) \<open>ce_comingSoonSeriesId ce = Some csid\<close>
        have "resolved ?L ce = Some (tl_seriesId l)" by (simp add: resolved_def)
        from goes[OF ce(1) this] Some \<open>ce_comingSoonSeriesId ce = Some csid\<close>
        show ?thesis by simp
      qed
    qed
  qed
next
  assume "ce_seriesId ce = None \<and> ce_comingSoonSeriesId ce = Some csid
        \<and> find (\<lambda>l. tl_comingSoonSeriesId l = csid) (seriesTransferLogC s) = Some l
        \<and> faults s = None # None # Some e # fs"
  then show "releaseEpisode ce s =
          (Inl e,
           s\<lparr>faults := fs,
             comingSoonEpisodeC :=
               updateFirst (\<lambda>x. ce_id x = ce_id ce) (\<lambda>x. x\<lparr>ce_seriesId := Some (tl_seriesId l)\<rparr>)
                 (comingSoonEpisodeC s),
             console := console s @ [(LOG, ResolvedSeriesId (tl_seriesId l) (ce_id ce))]\<rparr>)"
    by (simp add: resolve_persists_then_fails)
qed

theorem unlinked_episode_resolved_or_left_witness:
  "faults exampleStore = [] \<and> distinct (map ce_id (comingSoonEpisodeC exampleStore))
   \<and> episodeC0 \<in> set (filter (episodeDue (clock exampleStore)) (comingSoonEpisodeC exampleStore))
   \<and> ce_seriesId episodeC0 = None \<and> ce_comingSoonSeriesId episodeC0 = Some 4
   \<and> find (\<lambda>l. tl_comingSoonSeriesId l = 4) (seriesTransferLogC exampleStore) = None
   \<and> fst (releaseComingSoonEpisodes exampleStore) = Inr ()
   \<and> quiet exampleStore (snd (releaseComingSoonEpisodes exampleStore))
   \<and> episodeC0 \<in> set (comingSoonEpisodeC (snd (releaseComingSoonEpisodes exampleStore)))
   \<and> ce_status episodeC0 = Pending
   \<and> faults linkedStore = [] \<and> distinct (map ce_id (comingSoonEpisodeC linkedStore))
   \<and> episodeC0 \<in> set (filter (episodeDue (clock linkedStore)) (comingSoonEpisodeC linkedStore))
   \<and> find (\<lambda>l. tl_comingSoonSeriesId l = 4) (seriesTransferLogC linkedStore) = Some transferOfY
   \<and> ce_id episodeC0 \<notin> ce_id ` set (comingSoonEpisodeC (snd (releaseComingSoonEpisodes linkedStore)))
   \<and> (\<exists>x\<in>set (episodeC (snd (releaseComingSoonEpisodes linkedStore))).
         e_seriesId x = tl_seriesId transferOfY \<and> e_episode x = ce_episode episodeC0)
   \<and> releaseEpisode episodeC0 (linkedStore\<lparr>faults := [None, None, Some timeout]\<rparr>) =
       (Inl timeout,
        linkedStore\<lparr>faults := [],
          comingSoonEpisodeC :=
            updateFirst (\<lambda>x. ce_id x = ce_id episodeC0)
              (\<lambda>x. x\<lparr>ce_seriesId := Some (tl_seriesId transferOfY)\<rparr>) (comingSoonEpisodeC linkedStore),
          console := console linkedStore @ [(LOG, ResolvedSeriesId (tl_seriesId transferOfY) (ce_id episodeC0))]\<rparr>)
   \<and> comingSoonEpisodeC (snd (releaseEpisode episodeC0 (linkedStore\<lparr>faults := [None, None, Some timeout]\<rparr>)))
       = [episodeA, episodeB, episodeC0\<lparr>ce_seriesId := Some 3\<rparr>]"
proof -
  have h1: "faults exampleStore = []" by (simp add: example_defs)
  have h2: "distinct (map ce_id (comingSoonEpisodeC exampleStore))" by (simp add: example_defs)
  have h3: "episodeC0 \<in> set (filter (episodeDue (clock exampleStore)) (comingSoonEpisodeC exampleStore))"
    by (simp add: episodeDue_def example_defs)
  have h4: "ce_seriesId episodeC0 = None" and h5: "ce_comingSoonSeriesId episodeC0 = Some 4"
    and h5': "ce_status episodeC0 = Pending"
    by (simp_all add: example_defs)
  have h6: "find (\<lambda>l. tl_comingSoonSeriesId l = 4) (seriesTransferLogC exampleStore) = None"
    by (simp add: example_defs)
  note T = unlinked_episode_resolved_or_left[of exampleStore episodeC0 4 transferOfY timeout "[]"]
  from T h1 h2 have a: "fst (releaseComingSoonEpisodes exampleStore) = Inr ()"
    and b: "quiet exampleStore (snd (releaseComingSoonEpisodes exampleStore))"
    and c: "\<forall>ce\<in>set (filter (episodeDue (clock exampleStore)) (comingSoonEpisodeC exampleStore)).
            ce_seriesId ce = None \<longrightarrow>
              (case ce_comingSoonSeriesId ce of
                 None \<Rightarrow> ce \<in> set (comingSoonEpisodeC (snd (releaseComingSoonEpisodes exampleStore)))
               | Some csid \<Rightarrow>
                   (case find (\<lambda>l. tl_comingSoonSeriesId l = csid) (seriesTransferLogC exampleStore) of
                      None \<Rightarrow> ce \<in> set (comingSoonEpisodeC (snd (releaseComingSoonEpisodes exampleStore)))
                    | Some l \<Rightarrow>
                        ce_id ce \<notin> ce_id ` set (comingSoonEpisodeC (snd (releaseComingSoonEpisodes exampleStore)))
                        \<and> (\<exists>x\<in>set (episodeC (snd (releaseComingSoonEpisodes exampleStore))).
                              e_seriesId x = tl_seriesId l \<and> e_episode x = ce_episode ce)))"
    by simp_all
  from bspec[OF c h3] h4 h5 h6
  have stays: "episodeC0 \<in> set (comingSoonEpisodeC (snd (releaseComingSoonEpisodes exampleStore)))"
    by simp
  have k1: "faults linkedStore = []" by (simp add: example_defs)
  have k2: "distinct (map ce_id (comingSoonEpisodeC linkedStore))" by (simp add: example_defs)
  have k3: "episodeC0 \<in> set (filter (episodeDue (clock linkedStore)) (comingSoonEpisodeC linkedStore))"
    by (simp add: episodeDue_def example_defs)
  have k6: "find (\<lambda>l. tl_comingSoonSeriesId l = 4) (seriesTransferLogC linkedStore) = Some transferOfY"
    by (simp add: example_defs)
  note U = unlinked_episode_resolved_or_left[of linkedStore episodeC0 4 transferOfY timeout "[]"]
  from U k1 k2 have d: "\<forall>ce\<in>set (filter (episodeDue (clock linkedStore)) (comingSoonEpisodeC linkedStore)).
            ce_seriesId ce = None \<longrightarrow>
              (case ce_comingSoonSeriesId ce of
                 None \<Rightarrow> ce \<in> set (comingSoonEpisodeC (snd (releaseComingSoonEpisodes linkedStore)))
               | Some csid \<Rightarrow>
                   (case find (\<lambda>l. tl_comingSoonSeriesId l = csid) (seriesTransferLogC linkedStore) of
                      None \<Rightarrow> ce \<in> set (comingSoonEpisodeC (snd (releaseComingSoonEpisodes linkedStore)))
                    | Some l \<Rightarrow>
                        ce_id ce \<notin> ce_id ` set (comingSoonEpisodeC (snd (releaseComingSoonEpisodes linkedStore)))
                        \<and> (\<exists>x\<in>set (episodeC (snd (releaseComingSoonEpisodes linkedStore))).
                              e_seriesId x = tl_seriesId l \<and> e_episode x = ce_episode ce)))"
    by simp
  from bspec[OF d k3] h4 h5 k6
  have goes: "ce_id episodeC0 \<notin> ce_id ` set (comingSoonEpisodeC (snd (releaseComingSoonEpisodes linkedStore)))
     \<and> (\<exists>x\<in>set (episodeC (snd (releaseComingSoonEpisodes linkedStore))).
           e_seriesId x = tl_seriesId transferOfY \<and> e_episode x = ce_episode episodeC0)"
    by simp
  let ?f = "linkedStore\<lparr>faults := [None, None, Some timeout]\<rparr>"
  have m1: "find (\<lambda>l. tl_comingSoonSeriesId l = 4) (seriesTransferLogC ?f) = Some transferOfY"
    by (simp add: example_defs)
  have m2: "faults ?f = None # None # Some timeout # []" by simp
  from unlinked_episode_resolved_or_left[of ?f episodeC0 4 transferOfY timeout "[]"] h4 h5 m1 m2
  have persist: "releaseEpisode episodeC0 ?f =
       (Inl timeout,
        ?f\<lparr>faults := [],
          comingSoonEpisodeC :=
            updateFirst (\<lambda>x. ce_id x = ce_id episodeC0)
              (\<lambda>x. x\<lparr>ce_seriesId := Some (tl_seriesId transferOfY)\<rparr>) (comingSoonEpisodeC ?f),
          console := console ?f @ [(LOG, ResolvedSeriesId (tl_seriesId transferOfY) (ce_id episodeC0))]\<rparr>)"
    by blast
  then have persist': "releaseEpisode episodeC0 ?f =
       (Inl timeout,
        linkedStore\<lparr>faults := [],
          comingSoonEpisodeC :=
            updateFirst (\<lambda>x. ce_id x = ce_id episodeC0)
              (\<lambda>x. x\<lparr>ce_seriesId := Some (tl_seriesId transferOfY)\<rparr>) (comingSoonEpisodeC linkedStore),
          console := console linkedStore @ [(LOG, ResolvedSeriesId (tl_seriesId transferOfY) (ce_id episodeC0))]\<rparr>)"
    by simp
  have shown: "comingSoonEpisodeC (snd (releaseEpisode episodeC0 ?f))
       = [episodeA, episodeB, episodeC0\<lparr>ce_seriesId := Some 3\<rparr>]"
    unfolding persist' by (simp add: example_defs)
  from h1 h2 h3 h4 h5 h6 a b stays h5' k1 k2 k3 k6 goes persist' shown show ?thesis
    by (intro conjI) simp_all
qed
subsection \<open>C6: an episode that is already live\<close>


subsection \<open>C8: a series at status released\<close>


subsection \<open>C9: no error leaves the promoters\<close>

text \<open>
  Claim C9.  Whatever the store holds and whichever of the awaited store operations reject,
  with whatever errors, \<^verbatim>\<open>releaseComingSoonSeries\<close> and \<^verbatim>\<open>releaseComingSoonEpisodes\<close>
  both resolve normally: an error that reaches the outermost \<^verbatim>\<open>try\<close> is caught there and
  written to the console with \<^verbatim>\<open>console.error\<close>, so nothing propagates to the caller.
\<close>

theorem promoters_never_throw:
  "(\<exists>s'. releaseComingSoonSeries s = (Inr (), s')
         \<and> (\<forall>e s1. releaseComingSoonSeriesBody s = (Inl e, s1)
               \<longrightarrow> s' = logged ERROR (ErrorInReleaseComingSoonSeries e) s1))
   \<and> (\<exists>s'. releaseComingSoonEpisodes s = (Inr (), s')
         \<and> (\<forall>e s1. releaseComingSoonEpisodesBody s = (Inl e, s1)
               \<longrightarrow> s' = logged ERROR (ErrorInReleaseComingSoonEpisodes e) s1))"
proof
  show "\<exists>s'. releaseComingSoonSeries s = (Inr (), s')
         \<and> (\<forall>e s1. releaseComingSoonSeriesBody s = (Inl e, s1)
               \<longrightarrow> s' = logged ERROR (ErrorInReleaseComingSoonSeries e) s1)"
  proof (cases "releaseComingSoonSeriesBody s")
    case (Pair r s1)
    then show ?thesis
      by (cases r) (simp_all add: releaseComingSoonSeries_def tryCatch_def consoleLine_def)
  qed
  show "\<exists>s'. releaseComingSoonEpisodes s = (Inr (), s')
         \<and> (\<forall>e s1. releaseComingSoonEpisodesBody s = (Inl e, s1)
               \<longrightarrow> s' = logged ERROR (ErrorInReleaseComingSoonEpisodes e) s1)"
  proof (cases "releaseComingSoonEpisodesBody s")
    case (Pair r s1)
    then show ?thesis
      by (cases r) (simp_all add: releaseComingSoonEpisodes_def tryCatch_def consoleLine_def)
  qed
qed

theorem promoters_never_throw_witness:
  "releaseComingSoonSeriesBody (exampleStore\<lparr>faults := [Some diskFull]\<rparr>)
     = (Inl diskFull, exampleStore\<lparr>faults := []\<rparr>)
   \<and> releaseComingSoonEpisodesBody (exampleStore\<lparr>faults := [Some timeout]\<rparr>)
     = (Inl timeout, exampleStore\<lparr>faults := []\<rparr>)
   \<and> releaseComingSoonSeries (exampleStore\<lparr>faults := [Some diskFull]\<rparr>)
     = (Inr (), logged ERROR (ErrorInReleaseComingSoonSeries diskFull) (exampleStore\<lparr>faults := []\<rparr>))
   \<and> releaseComingSoonEpisodes (exampleStore\<lparr>faults := [Some timeout]\<rparr>)
     = (Inr (), logged ERROR (ErrorInReleaseComingSoonEpisodes timeout) (exampleStore\<lparr>faults := []\<rparr>))"
proof -
  have b1: "releaseComingSoonSeriesBody (exampleStore\<lparr>faults := [Some diskFull]\<rparr>)
     = (Inl diskFull, exampleStore\<lparr>faults := []\<rparr>)"
    by (simp add: releaseComingSoonSeriesBody_def bindE_def newDate_def await_def)
  have b2: "releaseComingSoonEpisodesBody (exampleStore\<lparr>faults := [Some timeout]\<rparr>)
     = (Inl timeout, exampleStore\<lparr>faults := []\<rparr>)"
    by (simp add: releaseComingSoonEpisodesBody_def bindE_def newDate_def await_def)
  from promoters_never_throw[of "exampleStore\<lparr>faults := [Some diskFull]\<rparr>"] b1
  have 1: "releaseComingSoonSeries (exampleStore\<lparr>faults := [Some diskFull]\<rparr>)
     = (Inr (), logged ERROR (ErrorInReleaseComingSoonSeries diskFull) (exampleStore\<lparr>faults := []\<rparr>))"
    by auto
  from promoters_never_throw[of "exampleStore\<lparr>faults := [Some timeout]\<rparr>"] b2
  have 2: "releaseComingSoonEpisodes (exampleStore\<lparr>faults := [Some timeout]\<rparr>)
     = (Inr (), logged ERROR (ErrorInReleaseComingSoonEpisodes timeout) (exampleStore\<lparr>faults := []\<rparr>))"
    by auto
  from b1 b2 1 2 show ?thesis by blast
qed
subsection \<open>C10: errors inside the release-with-parent pass\<close>

text \<open>
  Claim C10.  Whatever the store rejects and with whatever error, \<^verbatim>\<open>ENOSPC\<close> included:
  the inner loop over a released series' episodes never throws; an error thrown for one
  episode is written with \<^verbatim>\<open>console.error\<close> and the loop goes on with the remaining
  episodes; and once the series itself is released and its episodes are looked up, the
  outer iteration ends normally, so that the outer loop goes on with the next series and
  \<^verbatim>\<open>errors\<close> is as before.
\<close>

theorem nested_episode_errors_only_logged:
  "(\<exists>s'. releaseEpisodesOfSeries newSeries eps s = (Inr (), s'))
   \<and> (\<forall>e s1. releaseEpisodeOfSeries newSeries ep s = (Inl e, s1) \<longrightarrow>
         releaseEpisodesOfSeries newSeries (ep # rest) s =
         releaseEpisodesOfSeries newSeries rest
           (logged ERROR
              (ErrorReleasingEpisodeForSeries (ce_id ep) (s_title newSeries) (err_message e)) s1))
   \<and> (\<forall>ns s1 found s2.
         releaseSeriesCore cs s = (Inr ns, s1)
         \<and> await (ComingSoonEpisode_findOfSeries (s_id ns) (cs_id cs))
              (logged LOG (ReleasedSeries (s_title ns) (s_id ns)) s1) = (Inr found, s2) \<longrightarrow>
         (\<exists>s3. releaseSeries cs released s = (Inr (), released @ [(s_id ns, s_title ns)], s3)
               \<and> seriesLoop (cs # others) (released, errors) s =
                 seriesLoop others (released @ [(s_id ns, s_title ns)], errors) s3))"
proof (intro conjI allI impI)
  show "\<exists>s'. releaseEpisodesOfSeries newSeries eps s = (Inr (), s')"
    by (rule releaseEpisodesOfSeries_total)
next
  fix e s1
  assume "releaseEpisodeOfSeries newSeries ep s = (Inl e, s1)"
  then show "releaseEpisodesOfSeries newSeries (ep # rest) s =
         releaseEpisodesOfSeries newSeries rest
           (logged ERROR
              (ErrorReleasingEpisodeForSeries (ce_id ep) (s_title newSeries) (err_message e)) s1)"
    by (simp add: bindE_def tryCatch_def consoleLine_def)
next
  fix ns s1 found s2
  assume a: "releaseSeriesCore cs s = (Inr ns, s1)
         \<and> await (ComingSoonEpisode_findOfSeries (s_id ns) (cs_id cs))
              (logged LOG (ReleasedSeries (s_title ns) (s_id ns)) s1) = (Inr found, s2)"
  have "\<exists>s3. releaseSeriesEpisodes cs ns s1 = (Inr (), s3)"
  proof (cases "length found > 0")
    case True
    from releaseEpisodesOfSeries_total[of ns found
        "logged LOG (ReleasingEpisodesForSeries (length found) (s_title ns)) s2"]
    obtain s3 where "releaseEpisodesOfSeries ns found
        (logged LOG (ReleasingEpisodesForSeries (length found) (s_title ns)) s2) = (Inr (), s3)"
      by blast
    with a True show ?thesis
      by (simp add: releaseSeriesEpisodes_def bindE_def consoleLine_def)
  next
    case False
    with a show ?thesis
      by (simp add: releaseSeriesEpisodes_def bindE_def consoleLine_def ret_def)
  qed
  then obtain s3 where "releaseSeriesEpisodes cs ns s1 = (Inr (), s3)" by blast
  with a have "releaseSeries cs released s = (Inr (), released @ [(s_id ns, s_title ns)], s3)"
    by (simp add: releaseSeries_def)
  then show "\<exists>s3. releaseSeries cs released s = (Inr (), released @ [(s_id ns, s_title ns)], s3)
               \<and> seriesLoop (cs # others) (released, errors) s =
                 seriesLoop others (released @ [(s_id ns, s_title ns)], errors) s3"
    by simp
qed

theorem nested_episode_errors_only_logged_witness:
  "err_code diskFull = ''ENOSPC''
   \<and> releaseEpisodeOfSeries liveSeries episodeB (exampleStore\<lparr>faults := [None, Some diskFull]\<rparr>)
       = (Inl diskFull, exampleStore\<lparr>nextObjectId := 11\<rparr>)
   \<and> releaseEpisodesOfSeries liveSeries [episodeB, episodeA] (exampleStore\<lparr>faults := [None, Some diskFull]\<rparr>)
       = releaseEpisodesOfSeries liveSeries [episodeA]
           (logged ERROR (ErrorReleasingEpisodeForSeries (ce_id episodeB) (s_title liveSeries)
              (err_message diskFull)) (exampleStore\<lparr>nextObjectId := 11\<rparr>))
   \<and> (\<exists>s'. releaseEpisodesOfSeries liveSeries [episodeB, episodeA]
               (exampleStore\<lparr>faults := [None, Some diskFull]\<rparr>) = (Inr (), s'))
   \<and> console (snd (releaseEpisodesOfSeries liveSeries [episodeB, episodeA]
               (exampleStore\<lparr>faults := [None, Some diskFull]\<rparr>)))
       = [(ERROR, ErrorReleasingEpisodeForSeries 5 ''L'' ''no space left on device''),
          (LOG, EpisodeAlreadyExists 1)]
   \<and> fst (releaseSeriesCore seriesX
          (busyStore\<lparr>faults := [None, None, None, None, None, None, None, Some diskFull]\<rparr>))
       = Inr (newSeriesOf 10 seriesX)
   \<and> (\<exists>s3. releaseSeries seriesX []
               (busyStore\<lparr>faults := [None, None, None, None, None, None, None, Some diskFull]\<rparr>)
             = (Inr (), [(10, ''X'')], s3)
           \<and> seriesLoop [seriesX, seriesW] ([], [])
               (busyStore\<lparr>faults := [None, None, None, None, None, None, None, Some diskFull]\<rparr>)
             = seriesLoop [seriesW] ([(10, ''X'')], []) s3)
   \<and> fst (seriesLoop [seriesX, seriesW] ([], [])
          (busyStore\<lparr>faults := [None, None, None, None, None, None, None, Some diskFull]\<rparr>))
       = ([(10, ''X''), (13, ''W'')], [])"
proof -
  let ?E = "exampleStore\<lparr>faults := [None, Some diskFull]\<rparr>"
  let ?B = "busyStore\<lparr>faults := [None, None, None, None, None, None, None, Some diskFull]\<rparr>"
  have c1: "err_code diskFull = ''ENOSPC''" by (simp add: diskFull_def)
  have h1: "releaseEpisodeOfSeries liveSeries episodeB ?E = (Inl diskFull, exampleStore\<lparr>nextObjectId := 11\<rparr>)"
    by (simp add: run_defs example_defs)
  note T = nested_episode_errors_only_logged[where newSeries = liveSeries and ep = episodeB
      and rest = "[episodeA]" and s = ?E and eps = "[episodeB, episodeA]"]
  from T h1 have a: "releaseEpisodesOfSeries liveSeries [episodeB, episodeA] ?E
       = releaseEpisodesOfSeries liveSeries [episodeA]
           (logged ERROR (ErrorReleasingEpisodeForSeries (ce_id episodeB) (s_title liveSeries)
              (err_message diskFull)) (exampleStore\<lparr>nextObjectId := 11\<rparr>))"
    by blast
  from T have b: "\<exists>s'. releaseEpisodesOfSeries liveSeries [episodeB, episodeA] ?E = (Inr (), s')"
    by blast
  have c: "console (snd (releaseEpisodesOfSeries liveSeries [episodeB, episodeA] ?E))
       = [(ERROR, ErrorReleasingEpisodeForSeries 5 ''L'' ''no space left on device''),
          (LOG, EpisodeAlreadyExists 1)]"
    by (simp add: run_defs example_defs diskFull_def)
  let ?ns = "newSeriesOf 10 seriesX"
  have k1: "releaseSeriesCore seriesX ?B = (Inr ?ns, snd (releaseSeriesCore seriesX ?B))"
    by (simp add: run_defs example_defs)
  have k2: "await (ComingSoonEpisode_findOfSeries (s_id ?ns) (cs_id seriesX))
              (logged LOG (ReleasedSeries (s_title ?ns) (s_id ?ns)) (snd (releaseSeriesCore seriesX ?B)))
       = (Inr [episodeA\<lparr>ce_seriesId := Some 10\<rparr>],
          snd (await (ComingSoonEpisode_findOfSeries (s_id ?ns) (cs_id seriesX))
              (logged LOG (ReleasedSeries (s_title ?ns) (s_id ?ns)) (snd (releaseSeriesCore seriesX ?B)))))"
    by (simp add: run_defs example_defs)
  note U = nested_episode_errors_only_logged[where cs = seriesX and s = ?B and released = "[]"
      and others = "[seriesW]" and errors = "[]"]
  from U k1 k2 have d: "\<exists>s3. releaseSeries seriesX [] ?B = (Inr (), [] @ [(s_id ?ns, s_title ?ns)], s3)
           \<and> seriesLoop (seriesX # [seriesW]) ([], []) ?B
               = seriesLoop [seriesW] ([] @ [(s_id ?ns, s_title ?ns)], []) s3"
    by blast
  have ids: "s_id ?ns = 10" "s_title ?ns = ''X''" by (simp_all add: newSeriesOf_def example_defs)
  from d have d': "\<exists>s3. releaseSeries seriesX [] ?B = (Inr (), [(10, ''X'')], s3)
           \<and> seriesLoop [seriesX, seriesW] ([], []) ?B = seriesLoop [seriesW] ([(10, ''X'')], []) s3"
    unfolding ids by simp
  have e: "fst (seriesLoop [seriesX, seriesW] ([], []) ?B) = ([(10, ''X''), (13, ''W'')], [])"
    by (simp add: run_defs example_defs)
  have k1': "fst (releaseSeriesCore seriesX ?B) = Inr ?ns" using k1 by (metis fst_conv)
  from c1 h1 a b c k1' d' e show ?thesis by (intro conjI)
qed

end
